theory Spec2Isabelle
  imports Main "HOL-Library.AList" "HOL-Library.Sublist"
begin

section \<open>Python strings\<close>

text \<open>
  A Python \<open>str\<close> is modelled as a \<open>string\<close>, one \<open>char\<close> per code point; the
  model covers the code points below 256. The functions of this section are the
  \<open>str\<close> methods that the program calls.
\<close>

text \<open>\<open>str.isspace\<close> on one character; the regular expression class \<open>\s\<close> is the same set.\<close>

definition py_isspace :: "char \<Rightarrow> bool" where
  "py_isspace c = (c \<in> {CHR 0x09, CHR 0x0A, CHR 0x0B, CHR 0x0C, CHR 0x0D,
                          CHR 0x1C, CHR 0x1D, CHR 0x1E, CHR 0x1F, CHR 0x20,
                          CHR 0x85, CHR 0xA0})"

text \<open>The line feed.\<close>

abbreviation (input) NL :: char where "NL \<equiv> CHR 0x0A"

text \<open>\<open>s.strip()\<close>\<close>

definition py_strip :: "string \<Rightarrow> string" where
  "py_strip s = rev (dropWhile py_isspace (rev (dropWhile py_isspace s)))"

text \<open>\<open>s.lower()\<close>: the letters A-Z and the upper-case letters of Latin-1.\<close>

definition py_lower_char :: "char \<Rightarrow> char" where
  "py_lower_char c =
     (let n = (of_char c :: nat) in
      if (65 \<le> n \<and> n \<le> 90) \<or> (192 \<le> n \<and> n \<le> 222 \<and> n \<noteq> 215)
      then char_of (n + 32) else c)"

definition py_lower :: "string \<Rightarrow> string" where
  "py_lower s = map py_lower_char s"

text \<open>\<open>s.split(sep)\<close> for a separator of one character.\<close>

fun py_split :: "char \<Rightarrow> string \<Rightarrow> string list" where
  "py_split sep [] = [[]]"
| "py_split sep (c # cs) =
     (if c = sep then [] # py_split sep cs
      else (case py_split sep cs of
              [] \<Rightarrow> [[c]]
            | w # ws \<Rightarrow> (c # w) # ws))"

text \<open>\<open>s.split(sep, 1)\<close> for a string that contains \<open>sep\<close>: the text before the first
  separator and the text after it.\<close>

definition py_split1 :: "char \<Rightarrow> string \<Rightarrow> string \<times> string" where
  "py_split1 sep s = (takeWhile (\<lambda>c. c \<noteq> sep) s, tl (dropWhile (\<lambda>c. c \<noteq> sep) s))"

text \<open>\<open>s.startswith(p)\<close> and \<open>s.endswith(p)\<close>\<close>

definition py_startswith :: "string \<Rightarrow> string \<Rightarrow> bool" where
  "py_startswith s p = prefix p s"

definition py_endswith :: "string \<Rightarrow> string \<Rightarrow> bool" where
  "py_endswith s p = suffix p s"

text \<open>\<open>s.replace(old, new)\<close>: every non-overlapping occurrence of \<open>old\<close>, from the left;
  an empty \<open>old\<close> matches before every character and at the end.\<close>

fun replace_scan :: "string \<Rightarrow> string \<Rightarrow> string \<Rightarrow> string" where
  "replace_scan [] old new = []"
| "replace_scan (c # cs) old new =
     (if old \<noteq> [] \<and> prefix old (c # cs)
      then new @ replace_scan (drop (length old) (c # cs)) old new
      else c # replace_scan cs old new)"

definition py_replace :: "string \<Rightarrow> string \<Rightarrow> string \<Rightarrow> string" where
  "py_replace s old new =
     (if old = [] then new @ concat (map (\<lambda>c. c # new) s)
      else replace_scan s old new)"

section \<open>Regular expressions of the \<open>re\<close> module\<close>

text \<open>
  The patterns of the program are built from single characters, character classes,
  greedy and lazy repetition of a class, greedy options, groups and the anchor
  \<open>^\<close>. \<open>re\<close> is a backtracking matcher: the model lists the ways a pattern matches
  at a position in the order in which the matcher tries them, so the match that \<open>re\<close>
  reports is the head of the list.
\<close>

datatype cclass =
    Lit char        \<comment> \<open>the character itself\<close>
  | AnyButNL        \<comment> \<open>\<open>.\<close> without \<open>re.DOTALL\<close>\<close>
  | AnyChar         \<comment> \<open>\<open>.\<close> under \<open>re.DOTALL\<close>\<close>
  | Space           \<comment> \<open>\<open>\s\<close>\<close>
  | NotChar char    \<comment> \<open>\<open>[^c]\<close>\<close>

fun cmatch :: "cclass \<Rightarrow> char \<Rightarrow> bool" where
  "cmatch (Lit a) c = (c = a)"
| "cmatch AnyButNL c = (c \<noteq> CHR 0x0A)"
| "cmatch AnyChar c = True"
| "cmatch Space c = py_isspace c"
| "cmatch (NotChar a) c = (c \<noteq> a)"

datatype regex =
    Eps                   \<comment> \<open>the empty pattern\<close>
  | Atom cclass
  | Bol                   \<comment> \<open>\<open>^\<close> without \<open>re.MULTILINE\<close>\<close>
  | Seq regex regex
  | Star cclass           \<comment> \<open>\<open>c*\<close>, greedy\<close>
  | StarLazy cclass       \<comment> \<open>\<open>c*?\<close>\<close>
  | Opt regex             \<comment> \<open>\<open>r?\<close>, greedy\<close>
  | Group nat regex       \<comment> \<open>the capturing group of that number\<close>

text \<open>A matcher state: the position in the subject, the groups captured so far and the
  text from the position on.\<close>

type_synonym mstate = "nat \<times> (nat \<times> string) list \<times> string"

fun star_greedy :: "cclass \<Rightarrow> nat \<Rightarrow> string \<Rightarrow> (nat \<times> string) list" where
  "star_greedy c p [] = [(p, [])]"
| "star_greedy c p (x # xs) =
     (if cmatch c x then star_greedy c (Suc p) xs else []) @ [(p, x # xs)]"

fun star_lazy :: "cclass \<Rightarrow> nat \<Rightarrow> string \<Rightarrow> (nat \<times> string) list" where
  "star_lazy c p [] = [(p, [])]"
| "star_lazy c p (x # xs) =
     (p, x # xs) # (if cmatch c x then star_lazy c (Suc p) xs else [])"

fun ms :: "regex \<Rightarrow> mstate \<Rightarrow> mstate list" where
  "ms Eps st = [st]"
| "ms (Atom c) (p, cs, []) = []"
| "ms (Atom c) (p, cs, x # xs) = (if cmatch c x then [(Suc p, cs, xs)] else [])"
| "ms Bol (p, cs, rest) = (if p = 0 then [(p, cs, rest)] else [])"
| "ms (Seq a b) st = concat (map (ms b) (ms a st))"
| "ms (Star c) (p, cs, rest) = map (\<lambda>(q, r). (q, cs, r)) (star_greedy c p rest)"
| "ms (StarLazy c) (p, cs, rest) = map (\<lambda>(q, r). (q, cs, r)) (star_lazy c p rest)"
| "ms (Opt a) st = ms a st @ [st]"
| "ms (Group i a) (p, cs, rest) =
     map (\<lambda>(q, cs', r). (q, (i, take (q - p) rest) # cs', r)) (ms a (p, cs, rest))"

text \<open>Sequences and literal text.\<close>

fun seqs :: "regex list \<Rightarrow> regex" where
  "seqs [] = Eps"
| "seqs [r] = r"
| "seqs (r # rs) = Seq r (seqs rs)"

definition lit :: "char \<Rightarrow> regex" where
  "lit c = Atom (Lit c)"

text \<open>\<open>c+\<close>, greedy\<close>

definition plus_greedy :: "cclass \<Rightarrow> regex" where
  "plus_greedy c = Seq (Atom c) (Star c)"

text \<open>A match object: \<open>m.start()\<close>, \<open>m.end()\<close>, \<open>m.group(0)\<close> and the numbered groups.\<close>

record re_match =
  m_start :: nat
  m_end :: nat
  m_whole :: string
  m_caps :: "(nat \<times> string) list"

text \<open>\<open>m.group(i)\<close> for \<open>i > 0\<close>; a group that took no part gives the empty string, as in
  the tuples of \<open>re.findall\<close>.\<close>

definition m_group :: "re_match \<Rightarrow> nat \<Rightarrow> string" where
  "m_group m i = (case map_of (m_caps m) i of None \<Rightarrow> [] | Some s \<Rightarrow> s)"

text \<open>The match that starts exactly at position \<open>p\<close>, where \<open>rest\<close> is the subject from
  \<open>p\<close> on.\<close>

definition try_at :: "regex \<Rightarrow> nat \<Rightarrow> string \<Rightarrow> re_match option" where
  "try_at r p rest =
     (case ms r (p, [], rest) of
        [] \<Rightarrow> None
      | (e, cs, _) # _ \<Rightarrow>
          Some \<lparr>m_start = p, m_end = e, m_whole = take (e - p) rest, m_caps = cs\<rparr>)"

text \<open>\<open>re.search\<close>: the leftmost position with a match.\<close>

fun search_from :: "regex \<Rightarrow> nat \<Rightarrow> string \<Rightarrow> re_match option" where
  "search_from r p [] = try_at r p []"
| "search_from r p (x # xs) =
     (case try_at r p (x # xs) of
        Some m \<Rightarrow> Some m
      | None \<Rightarrow> search_from r (Suc p) xs)"

definition re_search :: "regex \<Rightarrow> string \<Rightarrow> re_match option" where
  "re_search r s = search_from r 0 s"

text \<open>
  \<open>re.finditer\<close> and \<open>re.sub\<close> walk the subject from the left and go on behind each
  match. The patterns of the program match no empty string; for an empty match the model
  moves one character on.
\<close>

function finditer_from :: "regex \<Rightarrow> nat \<Rightarrow> string \<Rightarrow> re_match list" where
  "finditer_from r p [] = (case try_at r p [] of None \<Rightarrow> [] | Some m \<Rightarrow> [m])"
| "finditer_from r p (x # xs) =
     (case try_at r p (x # xs) of
        None \<Rightarrow> finditer_from r (Suc p) xs
      | Some m \<Rightarrow>
          m # (if p < m_end m
               then finditer_from r (m_end m) (drop (m_end m - p) (x # xs))
               else finditer_from r (Suc p) xs))"
  by pat_completeness auto
termination
  by (relation "measure (\<lambda>(r, p, s). length s)") auto

function sub_from :: "regex \<Rightarrow> (re_match \<Rightarrow> string) \<Rightarrow> nat \<Rightarrow> string \<Rightarrow> string" where
  "sub_from r f p [] = (case try_at r p [] of None \<Rightarrow> [] | Some m \<Rightarrow> f m)"
| "sub_from r f p (x # xs) =
     (case try_at r p (x # xs) of
        None \<Rightarrow> x # sub_from r f (Suc p) xs
      | Some m \<Rightarrow>
          f m @ (if p < m_end m
                 then sub_from r f (m_end m) (drop (m_end m - p) (x # xs))
                 else x # sub_from r f (Suc p) xs))"
  by pat_completeness auto
termination
  by (relation "measure (\<lambda>(r, f, p, s). length s)") auto

text \<open>\<open>re.sub(pattern, f, s)\<close> with a function \<open>f\<close>\<close>

definition re_sub :: "regex \<Rightarrow> (re_match \<Rightarrow> string) \<Rightarrow> string \<Rightarrow> string" where
  "re_sub r f s = sub_from r f 0 s"

text \<open>\<open>re.findall(pattern, s)\<close> for a pattern of three groups\<close>

definition re_findall3 :: "regex \<Rightarrow> string \<Rightarrow> (string \<times> string \<times> string) list" where
  "re_findall3 r s = map (\<lambda>m. (m_group m 1, m_group m 2, m_group m 3)) (finditer_from r 0 s)"

section \<open>\<open>utils.py\<close>: rewriting the links\<close>

text \<open>A \<open>dict\<close> with string keys is an association list in insertion order with distinct
  keys: \<open>d[k] = v\<close> is \<open>AList.update k v d\<close>, \<open>d.get(k)\<close> is \<open>map_of d k\<close>.\<close>

type_synonym 'v dict = "(string \<times> 'v) list"

text \<open>\<open>image_pattern = r'!\[.*?\]\((.*?)(\s+"[^"]+")?\)'\<close>\<close>

definition image_pattern :: regex where
  "image_pattern = seqs
     [lit (CHR ''!''), lit (CHR ''[''), StarLazy AnyButNL, lit (CHR '']''), lit (CHR ''(''),
      Group 1 (StarLazy AnyButNL),
      Opt (Group 2 (seqs [plus_greedy Space, lit (CHR 0x22), plus_greedy (NotChar (CHR 0x22)),
                           lit (CHR 0x22)])),
      lit (CHR '')'')]"

text \<open>\<open>text_link_pattern = r'\[.*?\]\((.*?)\)'\<close>\<close>

definition text_link_pattern :: regex where
  "text_link_pattern = seqs
     [lit (CHR ''[''), StarLazy AnyButNL, lit (CHR '']''), lit (CHR ''(''),
      Group 1 (StarLazy AnyButNL), lit (CHR '')'')]"

text \<open>The callback \<open>_replace_link\<close>\<close>

definition replace_link :: "string dict \<Rightarrow> re_match \<Rightarrow> string" where
  "replace_link link_map m =
     (let old_link = py_strip (m_group m 1);
          new_link = (case map_of link_map old_link of None \<Rightarrow> old_link | Some u \<Rightarrow> u)
      in py_replace (m_whole m) old_link new_link)"

definition replace_markdown_links :: "string \<Rightarrow> string dict \<Rightarrow> string" where
  "replace_markdown_links md_content link_map =
     (if link_map = [] then md_content
      else let md_content1 = re_sub image_pattern (replace_link link_map) md_content
           in re_sub text_link_pattern (replace_link link_map) md_content1)"

text \<open>The targets that the rewriter looks up in the mapping: group 1, stripped, of every
  match of the first pass and of every match of the second pass over the same text.\<close>

definition rewrite_targets :: "string \<Rightarrow> string list" where
  "rewrite_targets body =
     map (\<lambda>m. py_strip (m_group m 1)) (finditer_from image_pattern 0 body)
     @ map (\<lambda>m. py_strip (m_group m 1)) (finditer_from text_link_pattern 0 body)"

section \<open>\<open>parser.py\<close>: the patterns\<close>

text \<open>\<open>link_pattern = r'(!?)\[.*?\]\((.*?)(\s+"[^"]+")?\)'\<close>\<close>

definition link_pattern :: regex where
  "link_pattern = seqs
     [Group 1 (Opt (lit (CHR ''!''))), lit (CHR ''[''), StarLazy AnyButNL, lit (CHR '']''),
      lit (CHR ''(''), Group 2 (StarLazy AnyButNL),
      Opt (Group 3 (seqs [plus_greedy Space, lit (CHR 0x22), plus_greedy (NotChar (CHR 0x22)),
                           lit (CHR 0x22)])),
      lit (CHR '')'')]"

text \<open>\<open>self._cover_pattern = r'<!--\s*cover:\s*(.*?)\s*-->'\<close>\<close>

definition cover_pattern :: regex where
  "cover_pattern = seqs
     [lit (CHR ''<''), lit (CHR ''!''), lit (CHR ''-''), lit (CHR ''-''), Star Space,
      lit (CHR ''c''), lit (CHR ''o''), lit (CHR ''v''), lit (CHR ''e''), lit (CHR ''r''),
      lit (CHR '':''), Star Space, Group 1 (StarLazy AnyButNL), Star Space,
      lit (CHR ''-''), lit (CHR ''-''), lit (CHR ''>'')]"

text \<open>\<open>self._front_matter_pattern = r'^---\s*\n(.*?)\n---\s*'\<close>, used with \<open>re.DOTALL\<close>\<close>

definition front_matter_pattern :: regex where
  "front_matter_pattern = seqs
     [Bol, lit (CHR ''-''), lit (CHR ''-''), lit (CHR ''-''), Star Space, lit (CHR 0x0A),
      Group 1 (StarLazy AnyChar), lit (CHR 0x0A),
      lit (CHR ''-''), lit (CHR ''-''), lit (CHR ''-''), Star Space]"

text \<open>Two parts of \<open>front_matter_pattern\<close>: what follows group 1, and what follows
  \<open>^---\s*\<close>.\<close>

definition fm_close :: regex where
  "fm_close = Seq (Atom (Lit NL)) (Seq (Atom (Lit (CHR ''-''))) (Seq (Atom (Lit (CHR ''-'')))
                (Seq (Atom (Lit (CHR ''-''))) (Star Space))))"

definition fm_open :: regex where
  "fm_open = Seq (Atom (Lit NL)) (Seq (Group 1 (StarLazy AnyChar)) fm_close)"

section \<open>The world outside the program\<close>

datatype error =
    FileNotFoundError
  | UnicodeDecodeError
  | ValueError
  | OSError
  | UploadError         \<comment> \<open>the \<open>Exception\<close> that \<open>_upload_single_asset\<close> raises\<close>

text \<open>
  What the parser asks of the operating system and of \<open>urllib\<close>: \<open>os.path.exists\<close>,
  reading a file as UTF-8 text (the text, or the exception of \<open>open\<close> and \<open>read\<close>), the
  working directory, and the scheme that \<open>urlparse\<close> finds in a string (or the
  \<open>ValueError\<close> that \<open>urlparse\<close> raises).
\<close>

record env =
  path_exists :: "string \<Rightarrow> bool"
  read_text :: "string \<Rightarrow> error + string"
  getcwd :: string
  urlparse_scheme :: "string \<Rightarrow> error + string"

text \<open>\<open>sep.join(xs)\<close>\<close>

fun py_join :: "string \<Rightarrow> string list \<Rightarrow> string" where
  "py_join sep [] = []"
| "py_join sep [x] = x"
| "py_join sep (x # xs) = x @ sep @ py_join sep xs"

text \<open>The functions of \<open>os.path\<close> on a POSIX system.\<close>

definition os_path_join :: "string \<Rightarrow> string \<Rightarrow> string" where
  "os_path_join a b =
     (if py_startswith b ''/'' then b
      else if a = [] \<or> py_endswith a ''/'' then a @ b
      else a @ ''/'' @ b)"

definition normpath_step :: "nat \<Rightarrow> string \<Rightarrow> string list \<Rightarrow> string list" where
  "normpath_step initial_slashes part new_comps =
     (if part = [] \<or> part = ''.'' then new_comps
      else if part \<noteq> ''..'' \<or> (initial_slashes = 0 \<and> new_comps = [])
                \<or> (new_comps \<noteq> [] \<and> last new_comps = ''..'')
      then new_comps @ [part]
      else if new_comps \<noteq> [] then butlast new_comps
      else new_comps)"

definition os_path_normpath :: "string \<Rightarrow> string" where
  "os_path_normpath path =
     (if path = [] then ''.''
      else let initial_slashes =
                 (if py_startswith path ''/''
                  then (if py_startswith path ''//'' \<and> \<not> py_startswith path ''///''
                        then 2 else 1)
                  else (0::nat));
               comps = fold (normpath_step initial_slashes) (py_split (CHR ''/'') path) [];
               path' = replicate initial_slashes (CHR ''/'') @ py_join ''/'' comps
           in if path' = [] then ''.'' else path')"

definition os_path_abspath :: "env \<Rightarrow> string \<Rightarrow> string" where
  "os_path_abspath e path =
     os_path_normpath (if py_startswith path ''/'' then path else os_path_join (getcwd e) path)"

definition os_path_basename :: "string \<Rightarrow> string" where
  "os_path_basename p = rev (takeWhile (\<lambda>c. c \<noteq> CHR ''/'') (rev p))"

definition os_path_dirname :: "string \<Rightarrow> string" where
  "os_path_dirname p =
     (let head = rev (dropWhile (\<lambda>c. c \<noteq> CHR ''/'') (rev p))
      in if head \<noteq> [] \<and> head \<noteq> replicate (length head) (CHR ''/'')
         then rev (dropWhile (\<lambda>c. c = CHR ''/'') (rev head))
         else head)"

section \<open>\<open>parser.py\<close>: the data model\<close>

record Asset =
  original_path :: string
  absolute_path :: string
  is_image :: bool
  file_name :: string

text \<open>The constructor of the dataclass with its \<open>__post_init__\<close>.\<close>

definition mk_Asset :: "string \<Rightarrow> string \<Rightarrow> bool \<Rightarrow> Asset" where
  "mk_Asset op ap img =
     \<lparr>original_path = op, absolute_path = ap, is_image = img,
      file_name = os_path_basename ap\<rparr>"

text \<open>The \<open>__eq__\<close> that \<open>@dataclass\<close> generates: the tuples of all fields are compared
  (a field declared with \<open>field(init=False)\<close> takes part in the comparison).\<close>

definition Asset_eq :: "Asset \<Rightarrow> Asset \<Rightarrow> bool" where
  "Asset_eq a b =
     ((original_path a, absolute_path a, is_image a, file_name a)
      = (original_path b, absolute_path b, is_image b, file_name b))"

text \<open>\<open>a in xs\<close> for a list of assets\<close>

definition Asset_in :: "Asset \<Rightarrow> Asset list \<Rightarrow> bool" where
  "Asset_in a xs = list_ex (Asset_eq a) xs"

record MD_ParsedResult =
  content :: string
  file_path :: string
  dir_path :: string
  external_links :: "string list"
  local_assets :: "Asset list"
  cover_image :: "Asset option"
  front_matter :: "string dict"

text \<open>The attribute of the parser object that \<open>_extract_cover_image\<close> assigns.\<close>

record MarkdownParser =
  cover_path :: "string option"

section \<open>\<open>parser.py\<close>: the extractors\<close>

text \<open>The body of the loop of \<open>_extract_front_matter\<close>.\<close>

definition front_matter_line :: "string \<Rightarrow> string dict \<Rightarrow> string dict" where
  "front_matter_line line0 fm =
     (let line = py_strip line0 in
      if line = [] \<or> py_startswith line ''#'' then fm
      else if CHR '':'' \<in> set line
      then (let (key, val) = py_split1 (CHR '':'') line
            in AList.update (py_lower (py_strip key)) (py_strip val) fm)
      else fm)"

definition extract_front_matter :: "string \<Rightarrow> string dict" where
  "extract_front_matter cont =
     (case re_search front_matter_pattern cont of
        None \<Rightarrow> []
      | Some m \<Rightarrow> fold front_matter_line (py_split (CHR 0x0A) (m_group m 1)) [])"

definition process_local_asset ::
  "env \<Rightarrow> string \<Rightarrow> string \<Rightarrow> string \<Rightarrow> MD_ParsedResult \<Rightarrow> MD_ParsedResult" where
  "process_local_asset e link_mark path base_dir result =
     (let abs_path = os_path_abspath e (os_path_join base_dir path) in
      if \<not> path_exists e abs_path then result
      else let asset = mk_Asset path abs_path (link_mark \<noteq> [])
           in result\<lparr>local_assets := local_assets result @ [asset]\<rparr>)"

text \<open>The loop of \<open>_extract_links\<close> over the tuples of \<open>re.findall\<close>. An exception of
  \<open>urlparse\<close> is not caught and ends the loop.\<close>

fun extract_links_loop ::
  "env \<Rightarrow> (string \<times> string \<times> string) list \<Rightarrow> string \<Rightarrow> MD_ParsedResult
     \<Rightarrow> error + MD_ParsedResult" where
  "extract_links_loop e [] base_dir result = Inr result"
| "extract_links_loop e ((link_mark, path0, title) # matches) base_dir result =
     (let path = py_strip path0 in
      if path = [] then extract_links_loop e matches base_dir result
      else (case urlparse_scheme e path of
              Inl err \<Rightarrow> Inl err
            | Inr scheme \<Rightarrow>
                if scheme = ''http'' \<or> scheme = ''https''
                then extract_links_loop e matches base_dir
                       (result\<lparr>external_links := external_links result @ [path]\<rparr>)
                else extract_links_loop e matches base_dir
                       (process_local_asset e link_mark path base_dir result)))"

definition extract_links ::
  "env \<Rightarrow> string \<Rightarrow> string \<Rightarrow> MD_ParsedResult \<Rightarrow> error + MD_ParsedResult" where
  "extract_links e cont base_dir result =
     extract_links_loop e (re_findall3 link_pattern cont) base_dir result"

definition image_extensions :: "string list" where
  "image_extensions = [''.jpg'', ''.jpeg'', ''.png'', ''.gif'', ''.webp'', ''.svg'']"

definition is_image_file :: "string \<Rightarrow> bool" where
  "is_image_file p = list_ex (py_endswith (py_lower p)) image_extensions"

text \<open>\<open>_extract_cover_image\<close>: the value it returns, the result object and the parser
  object after the call.\<close>

definition extract_cover_image ::
  "env \<Rightarrow> string \<Rightarrow> string \<Rightarrow> MD_ParsedResult \<Rightarrow> MarkdownParser
     \<Rightarrow> string option \<times> MD_ParsedResult \<times> MarkdownParser" where
  "extract_cover_image e cont base_dir result self =
     (case re_search cover_pattern cont of
        None \<Rightarrow> (None, result, self)
      | Some m \<Rightarrow>
          (let cpath = py_strip (m_group m 1) in
           if cpath = [] then (None, result, self)
           else let abs_path = os_path_abspath e (os_path_join base_dir cpath) in
             if \<not> path_exists e abs_path then (None, result, self)
             else if \<not> is_image_file abs_path then (None, result, self)
             else (Some cpath, result, self\<lparr>cover_path := Some cpath\<rparr>)))"

text \<open>\<open>MarkdownParser.parse\<close>: the value it returns or the exception it raises, and the
  parser object after the call.\<close>

definition parse ::
  "env \<Rightarrow> MarkdownParser \<Rightarrow> string \<Rightarrow> (error + MD_ParsedResult) \<times> MarkdownParser" where
  "parse e self md_file_path =
     (if \<not> path_exists e md_file_path then (Inl FileNotFoundError, self)
      else let fpath = os_path_abspath e md_file_path;
               dpath = os_path_dirname fpath
           in (case read_text e fpath of
                 Inl err \<Rightarrow> (Inl err, self)
               | Inr cont \<Rightarrow>
                   (let parsed_result =
                          \<lparr>content = cont, file_path = fpath, dir_path = dpath,
                           external_links = [], local_assets = [], cover_image = None,
                           front_matter = extract_front_matter cont\<rparr>
                    in (case extract_links e cont dpath parsed_result of
                          Inl err \<Rightarrow> (Inl err, self)
                        | Inr result1 \<Rightarrow>
                            (case extract_cover_image e cont dpath result1 self of
                               (ret, result2, self') \<Rightarrow> (Inr result2, self'))))))"

section \<open>\<open>uploader.py\<close>\<close>

text \<open>
  What the uploader asks of the world: reading a file as bytes, \<open>mimetypes.guess_type\<close>,
  and the remote call \<open>wp.uploadFile\<close> on a server of state \<open>'srv\<close>. The call gives
  the values under \<open>"url"\<close> and \<open>"id"\<close> of its response (\<open>None\<close> for Python's
  \<open>None\<close>), or the exception of the call or of a missing key.
\<close>

record upload_data =
  ud_name :: string
  ud_type :: string
  ud_bits :: string
  ud_overwrite :: bool

record 'srv wp_world =
  read_bytes :: "string \<Rightarrow> error + string"
  guess_type :: "string \<Rightarrow> string option"
  wp_uploadFile :: "'srv \<Rightarrow> upload_data \<Rightarrow> (error + (string option \<times> int option)) \<times> 'srv"

text \<open>\<open>_upload_single_asset\<close>. Every exception of the file read and of the remote call is
  raised again as \<open>Exception\<close>. (The test \<open>isinstance(asset, Asset)\<close> holds by the type
  of the argument.)\<close>

definition upload_single_asset ::
  "'srv wp_world \<Rightarrow> 'srv \<Rightarrow> Asset \<Rightarrow> string
     \<Rightarrow> (error + (string option \<times> int option)) \<times> 'srv" where
  "upload_single_asset w srv asset file_prefix =
     (let upload_file_name = file_prefix @ file_name asset in
      case read_bytes w (absolute_path asset) of
        Inl err \<Rightarrow> (Inl UploadError, srv)
      | Inr file_content \<Rightarrow>
          (let mime_type = (case guess_type w (absolute_path asset) of
                              None \<Rightarrow> ''application/octet-stream''
                            | Some t \<Rightarrow> if t = [] then ''application/octet-stream'' else t);
               data = \<lparr>ud_name = upload_file_name, ud_type = mime_type,
                       ud_bits = file_content, ud_overwrite = False\<rparr>
           in (case wp_uploadFile w srv data of
                 (Inl err, srv') \<Rightarrow> (Inl UploadError, srv')
               | (Inr (media_url, media_id), srv') \<Rightarrow> (Inr (media_url, media_id), srv'))))"

text \<open>The loop of \<open>upload_assets\<close>: the two dictionaries, the count of successes and the
  server.\<close>

fun upload_loop ::
  "'srv wp_world \<Rightarrow> string \<Rightarrow> Asset list \<Rightarrow> string dict \<times> int dict \<times> nat \<times> 'srv
     \<Rightarrow> string dict \<times> int dict \<times> nat \<times> 'srv" where
  "upload_loop w file_prefix [] st = st"
| "upload_loop w file_prefix (asset # assets) (link_map, asset_id_map, success_count, srv) =
     (case upload_single_asset w srv asset file_prefix of
        (Inl err, srv') \<Rightarrow>
          upload_loop w file_prefix assets (link_map, asset_id_map, success_count, srv')
      | (Inr (Some url, Some media_id), srv') \<Rightarrow>
          if url \<noteq> [] \<and> media_id \<noteq> 0
          then upload_loop w file_prefix assets
                 (AList.update (original_path asset) url link_map,
                  AList.update (original_path asset) media_id asset_id_map,
                  success_count + 1, srv')
          else upload_loop w file_prefix assets (link_map, asset_id_map, success_count, srv')
      | (Inr _, srv') \<Rightarrow>
          upload_loop w file_prefix assets (link_map, asset_id_map, success_count, srv'))"

definition upload_assets ::
  "'srv wp_world \<Rightarrow> 'srv \<Rightarrow> Asset list \<Rightarrow> string \<Rightarrow> (string dict \<times> int dict) \<times> 'srv" where
  "upload_assets w srv assets file_prefix =
     (if assets = [] then (([], []), srv)
      else (case upload_loop w file_prefix assets ([], [], 0, srv) of
              (link_map, asset_id_map, success_count, srv') \<Rightarrow>
                ((link_map, asset_id_map), srv')))"

text \<open>The list \<open>assets_to_upload\<close> of \<open>publish_from_parsed_result\<close>.\<close>

definition assets_to_upload :: "MD_ParsedResult \<Rightarrow> Asset list" where
  "assets_to_upload parsed_result =
     (case cover_image parsed_result of
        None \<Rightarrow> local_assets parsed_result
      | Some cover \<Rightarrow>
          if \<not> Asset_in cover (local_assets parsed_result)
          then local_assets parsed_result @ [cover]
          else local_assets parsed_result)"

section \<open>The front matter in the words of the specification\<close>

text \<open>
  A line of the block is blank when it has whitespace only, and a comment when its first
  character after leading whitespace is \<open>#\<close>. A line that is neither and contains a
  colon gives one entry: the key is the text before the first colon, trimmed and in lower
  case, and the value is the text after it, trimmed. Every other line gives nothing. The
  mapping takes the entries of the lines in their order, a later entry replacing an
  earlier one of the same key.
\<close>

definition spec_blank :: "string \<Rightarrow> bool" where
  "spec_blank l = list_all py_isspace l"

definition spec_comment :: "string \<Rightarrow> bool" where
  "spec_comment l = (case dropWhile py_isspace l of [] \<Rightarrow> False | c # _ \<Rightarrow> c = CHR ''#'')"

definition spec_entry :: "string \<Rightarrow> (string \<times> string) option" where
  "spec_entry l =
     (if spec_blank l then None
      else if spec_comment l then None
      else if CHR '':'' \<in> set l
      then Some (py_lower (py_strip (takeWhile (\<lambda>c. c \<noteq> CHR '':'') l)),
                 py_strip (tl (dropWhile (\<lambda>c. c \<noteq> CHR '':'') l)))
      else None)"

definition spec_front_matter :: "string list \<Rightarrow> (string \<rightharpoonup> string)" where
  "spec_front_matter ls =
     foldl (\<lambda>m l. case spec_entry l of None \<Rightarrow> m | Some (k, v) \<Rightarrow> m(k \<mapsto> v)) Map.empty ls"

section \<open>A world for the examples\<close>

text \<open>
  The scheme that \<open>urllib.parse.urlparse\<close> of Python 3.11 finds, or the \<open>ValueError\<close>
  that it raises. Leading control characters and spaces are dropped, tabs and line ends
  are removed, and the text before the first colon is the scheme (in lower case) when it
  starts with an ASCII letter and consists of letters, digits, \<open>+\<close>, \<open>-\<close> and \<open>.\<close>.
  When \<open>//\<close> follows, the host part runs to the first of \<open>/\<close>, \<open>?\<close> and \<open>#\<close>; a
  host part with one kind of square bracket only, or with a bracketed host that is neither
  an IPv6 address (as \<open>ipaddress.IPv6Address\<close> accepts it) nor an IPvFuture address,
  raises \<open>ValueError\<close>.
\<close>

definition scheme_char :: "char \<Rightarrow> bool" where
  "scheme_char c =
     (let n = (of_char c :: nat) in
      (97 \<le> n \<and> n \<le> 122) \<or> (65 \<le> n \<and> n \<le> 90) \<or> (48 \<le> n \<and> n \<le> 57)
      \<or> c = CHR ''+'' \<or> c = CHR ''-'' \<or> c = CHR ''.'')"

definition ascii_alpha :: "char \<Rightarrow> bool" where
  "ascii_alpha c =
     (let n = (of_char c :: nat) in (97 \<le> n \<and> n \<le> 122) \<or> (65 \<le> n \<and> n \<le> 90))"

definition hex_digit :: "char \<Rightarrow> bool" where
  "hex_digit c = (c \<in> set ''0123456789abcdefABCDEF'')"

definition dec_digit :: "char \<Rightarrow> bool" where
  "dec_digit c = (c \<in> set ''0123456789'')"

text \<open>\<open>int(s, 10)\<close> for a string of decimal digits\<close>

definition dec_value :: "string \<Rightarrow> nat" where
  "dec_value s = foldl (\<lambda>n c. 10 * n + (of_char c - 48)) 0 s"

text \<open>\<open>ipaddress\<close>: an octet that \<open>_parse_octet\<close> accepts, an address that
  \<open>IPv4Address\<close> accepts, a hextet that \<open>_parse_hextet\<close> accepts.\<close>

definition valid_octet :: "string \<Rightarrow> bool" where
  "valid_octet s =
     (s \<noteq> [] \<and> list_all dec_digit s \<and> length s \<le> 3
      \<and> (if s = ''0'' then True else hd s \<noteq> CHR ''0'')
      \<and> dec_value s \<le> 255)"

definition valid_ipv4 :: "string \<Rightarrow> bool" where
  "valid_ipv4 s =
     (s \<noteq> [] \<and> CHR ''/'' \<notin> set s
      \<and> length (py_split (CHR ''.'') s) = 4
      \<and> list_all valid_octet (py_split (CHR ''.'') s))"

definition valid_hextet :: "string \<Rightarrow> bool" where
  "valid_hextet s = (s \<noteq> [] \<and> list_all hex_digit s \<and> length s \<le> 4)"

text \<open>The parts between the colons of an IPv6 address, after an IPv4 suffix was replaced by
  its two hextets: at most one empty part strictly inside (the \<open>::\<close>), an empty first or
  last part only next to it, and hextets everywhere else.\<close>

definition valid_ipv6_parts :: "string list \<Rightarrow> bool" where
  "valid_ipv6_parts parts =
     (let n = length parts in
      if 9 < n then False
      else (case filter (\<lambda>i. parts ! i = []) [1 ..< n - 1] of
              [] \<Rightarrow> n = 8 \<and> list_all valid_hextet parts
            | [skip_index] \<Rightarrow>
                (let parts_hi = (if hd parts = [] then skip_index - 1 else skip_index);
                     parts_lo = (if last parts = [] then n - skip_index - 2
                                 else n - skip_index - 1)
                 in (if hd parts = [] then parts_hi = 0 else True)
                    \<and> (if last parts = [] then parts_lo = 0 else True)
                    \<and> parts_hi + parts_lo \<le> 7
                    \<and> list_all valid_hextet (take parts_hi parts)
                    \<and> list_all valid_hextet (drop (n - parts_lo) parts))
            | _ \<Rightarrow> False))"

text \<open>An address that \<open>ipaddress.IPv6Address\<close> accepts, with an optional scope after
  \<open>%\<close>. (The hextets that stand for a valid IPv4 suffix are valid; \<open>0\<close> stands for
  them here.)\<close>

definition valid_ipv6 :: "string \<Rightarrow> bool" where
  "valid_ipv6 s =
     (let addr = takeWhile (\<lambda>c. c \<noteq> CHR ''%'') s;
          scope_id = tl (dropWhile (\<lambda>c. c \<noteq> CHR ''%'') s);
          parts = py_split (CHR '':'') addr
      in CHR ''/'' \<notin> set s
         \<and> (if CHR ''%'' \<in> set s then scope_id \<noteq> [] \<and> CHR ''%'' \<notin> set scope_id else True)
         \<and> addr \<noteq> []
         \<and> 3 \<le> length parts
         \<and> (if CHR ''.'' \<in> set (last parts)
             then valid_ipv4 (last parts) \<and> valid_ipv6_parts (butlast parts @ [''0'', ''0''])
             else valid_ipv6_parts parts))"

text \<open>\<open>_check_bracketed_host\<close> returns: a host that starts with \<open>v\<close> matches
  \<open>\Av[a-fA-F0-9]+\..+\Z\<close>, another host is an IPv6 address.\<close>

definition bracketed_host_ok :: "string \<Rightarrow> bool" where
  "bracketed_host_ok h =
     (if py_startswith h ''v''
      then takeWhile hex_digit (tl h) \<noteq> []
           \<and> (case dropWhile hex_digit (tl h) of
                 [] \<Rightarrow> False
               | c # t \<Rightarrow> c = CHR ''.'' \<and> t \<noteq> [] \<and> CHR 0x0A \<notin> set t)
      else valid_ipv6 h)"

definition py_urlparse_scheme :: "string \<Rightarrow> error + string" where
  "py_urlparse_scheme url0 =
     (let url1 = dropWhile (\<lambda>c. (of_char c :: nat) \<le> 32) url0;
          url = filter (\<lambda>c. c \<noteq> CHR 0x09 \<and> c \<noteq> CHR 0x0A \<and> c \<noteq> CHR 0x0D) url1;
          pre = takeWhile (\<lambda>c. c \<noteq> CHR '':'') url;
          has_scheme = (CHR '':'' \<in> set url \<and> pre \<noteq> [] \<and> ascii_alpha (hd url)
                        \<and> list_all scheme_char pre);
          scheme = (if has_scheme then py_lower pre else []);
          rest = (if has_scheme then drop (length pre + 1) url else url);
          netloc = takeWhile (\<lambda>c. c \<noteq> CHR ''/'' \<and> c \<noteq> CHR ''?'' \<and> c \<noteq> CHR ''#'') (drop 2 rest);
          bracketed_host = takeWhile (\<lambda>c. c \<noteq> CHR '']'') (tl (dropWhile (\<lambda>c. c \<noteq> CHR ''['') netloc))
      in if py_startswith rest ''//''
         then (if CHR ''['' \<in> set netloc
               then (if CHR '']'' \<in> set netloc
                     then (if bracketed_host_ok bracketed_host then Inr scheme
                           else Inl ValueError)
                     else Inl ValueError)
               else (if CHR '']'' \<in> set netloc then Inl ValueError else Inr scheme))
         else Inr scheme)"

text \<open>A directory \<open>/d\<close> with the document \<open>/d/post.md\<close> of the given text and the files
  whose absolute paths are listed.\<close>

definition example_env :: "string \<Rightarrow> string list \<Rightarrow> env" where
  "example_env doc files =
     \<lparr>path_exists = (\<lambda>p. p = ''/d/post.md'' \<or> p \<in> set files),
      read_text = (\<lambda>p. if p = ''/d/post.md'' then Inr doc else Inl OSError),
      getcwd = ''/d'',
      urlparse_scheme = py_urlparse_scheme\<rparr>"

text \<open>The result object that \<open>parse\<close> creates for that document before the extractors
  run (the examples have no front matter).\<close>

definition example_result :: "string \<Rightarrow> MD_ParsedResult" where
  "example_result doc =
     \<lparr>content = doc, file_path = ''/d/post.md'', dir_path = ''/d'', external_links = [],
      local_assets = [], cover_image = None, front_matter = []\<rparr>"

section \<open>Properties of the uploader and of the data model\<close>

lemma upload_loop_keys:
  "map fst lm = map fst im \<Longrightarrow>
   upload_loop w pre assets (lm, im, n, srv) = (lm', im', n', srv') \<Longrightarrow>
   map fst lm' = map fst im'"
proof (induction assets arbitrary: lm im n srv)
  case Nil
  then show ?case by simp
next
  case (Cons a assets)
  obtain res s1 where u: "upload_single_asset w srv a pre = (res, s1)"
    by (cases "upload_single_asset w srv a pre")
  show ?case
  proof (cases res)
    case (Inl err)
    with Cons u show ?thesis by simp
  next
    case (Inr pr)
    obtain url mid where pr: "pr = (url, mid)" by (cases pr)
    show ?thesis
    proof (cases "\<exists>u i. url = Some u \<and> mid = Some i \<and> u \<noteq> [] \<and> i \<noteq> 0")
      case True
      then obtain u' i where ui: "url = Some u'" "mid = Some i" "u' \<noteq> []" "i \<noteq> 0" by blast
      have keys: "map fst (AList.update (original_path a) u' lm)
                   = map fst (AList.update (original_path a) i im)"
        using Cons.prems(1) by (simp add: update_keys)
      from Cons.prems(2) u Inr pr ui
      have "upload_loop w pre assets
              (AList.update (original_path a) u' lm, AList.update (original_path a) i im,
               n + 1, s1) = (lm', im', n', srv')"
        by simp
      from Cons.IH[OF keys this] show ?thesis .
    next
      case False
      with Cons.prems(2) u Inr pr
      have "upload_loop w pre assets (lm, im, n, s1) = (lm', im', n', srv')"
        by (cases url; cases mid) (auto split: if_splits)
      from Cons.IH[OF Cons.prems(1) this] show ?thesis .
    qed
  qed
qed

text \<open>
  C9: for every world, server, list of assets and prefix, the two dictionaries that
  \<open>upload_assets\<close> returns have the same set of keys: a reference is a key of
  \<open>link_map\<close> exactly when it is a key of \<open>asset_id_map\<close>. (The loop inserts into both
  under the same key, and only when the upload gave a URL and an ID that are both true
  values.)
\<close>

theorem upload_assets_same_keys:
  "fst ` set (fst (fst (upload_assets w srv assets pre)))
   = fst ` set (snd (fst (upload_assets w srv assets pre)))"
proof (cases "assets = []")
  case True
  then show ?thesis by (simp add: upload_assets_def)
next
  case False
  obtain lm im n s' where l: "upload_loop w pre assets ([], [], 0, srv) = (lm, im, n, s')"
    by (cases "upload_loop w pre assets ([], [], 0, srv)")
  have "map fst lm = map fst im"
    by (rule upload_loop_keys[OF _ l]) simp
  then have "set (map fst lm) = set (map fst im)" by simp
  with False l show ?thesis by (simp add: upload_assets_def)
qed

text \<open>
  C3, as the claim states it, fails: two assets with the same original reference that
  differ in \<open>is_image\<close> are not equal.
\<close>

theorem Asset_eq_counterexample:
  "original_path (mk_Asset ''cover.jpg'' ''/d/cover.jpg'' True)
     = original_path (mk_Asset ''cover.jpg'' ''/d/cover.jpg'' False)
   \<and> \<not> Asset_eq (mk_Asset ''cover.jpg'' ''/d/cover.jpg'' True)
                 (mk_Asset ''cover.jpg'' ''/d/cover.jpg'' False)"
  by (simp add: mk_Asset_def Asset_eq_def)

text \<open>
  C3, amended: two assets made by the constructor are equal if and only if their original
  reference, their absolute path and their \<open>is_image\<close> flag are all equal (the derived
  file name then agrees); equal assets have equal original references, so an equal
  reference is necessary and not sufficient. The publish step appends the cover to the
  upload list exactly when no local asset is equal to it in this sense.
\<close>

theorem Asset_eq_fields:
  "(Asset_eq (mk_Asset p1 a1 i1) (mk_Asset p2 a2 i2) \<longleftrightarrow> p1 = p2 \<and> a1 = a2 \<and> i1 = i2)
   \<and> (Asset_eq a b \<longrightarrow> original_path a = original_path b)
   \<and> (cover_image r = Some c \<longrightarrow>
        assets_to_upload r
          = (if Asset_in c (local_assets r) then local_assets r else local_assets r @ [c]))"
  by (auto simp: mk_Asset_def Asset_eq_def assets_to_upload_def)

theorem Asset_eq_fields_witness:
  "Asset_eq (mk_Asset ''cover.jpg'' ''/d/cover.jpg'' True)
            (mk_Asset ''cover.jpg'' ''/d/cover.jpg'' True)
   \<and> assets_to_upload
        \<lparr>content = [], file_path = ''/d/post.md'', dir_path = ''/d'', external_links = [],
         local_assets = [mk_Asset ''cover.jpg'' ''/d/cover.jpg'' False],
         cover_image = Some (mk_Asset ''cover.jpg'' ''/d/cover.jpg'' True),
         front_matter = []\<rparr>
      = [mk_Asset ''cover.jpg'' ''/d/cover.jpg'' False,
         mk_Asset ''cover.jpg'' ''/d/cover.jpg'' True]"
  using Asset_eq_fields [of "''cover.jpg''" "''/d/cover.jpg''" True
                            "''cover.jpg''" "''/d/cover.jpg''" True
                            "mk_Asset ''cover.jpg'' ''/d/cover.jpg'' True"
                            "mk_Asset ''cover.jpg'' ''/d/cover.jpg'' True"
                            "\<lparr>content = [], file_path = ''/d/post.md'', dir_path = ''/d'',
                              external_links = [],
                              local_assets = [mk_Asset ''cover.jpg'' ''/d/cover.jpg'' False],
                              cover_image = Some (mk_Asset ''cover.jpg'' ''/d/cover.jpg'' True),
                              front_matter = []\<rparr>"
                            "mk_Asset ''cover.jpg'' ''/d/cover.jpg'' True"]
  by (simp add: Asset_in_def Asset_eq_def mk_Asset_def)

section \<open>Properties of the parser\<close>

text \<open>
  C1 at the document of the scenario: the body has \<open>![hero](cover.jpg)\<close> and
  \<open><!-- cover: cover.jpg -->\<close>, and \<open>/d/cover.jpg\<close> exists. \<open>parse\<close> returns a result
  with the local asset and with \<open>cover_image = None\<close>: \<open>_extract_cover_image\<close> stores
  the path in the attribute \<open>cover_path\<close> of the parser and leaves the result as it was.
\<close>

theorem parse_cover_example:
  "parse (example_env (''![hero](cover.jpg)'' @ [CHR 0x0A] @ ''<!-- cover: cover.jpg -->'')
            [''/d/cover.jpg''])
         \<lparr>cover_path = None\<rparr> ''/d/post.md''
   = (Inr \<lparr>content = ''![hero](cover.jpg)'' @ [CHR 0x0A] @ ''<!-- cover: cover.jpg -->'',
           file_path = ''/d/post.md'', dir_path = ''/d'', external_links = [],
           local_assets = [mk_Asset ''cover.jpg'' ''/d/cover.jpg'' True],
           cover_image = None, front_matter = []\<rparr>,
      \<lparr>cover_path = Some ''cover.jpg''\<rparr>)"
  by code_simp

lemma py_strip_all_space: "list_all py_isspace s \<Longrightarrow> py_strip s = []"
proof -
  assume "list_all py_isspace s"
  then have d: "dropWhile py_isspace s = []" by (simp add: list_all_iff)
  show ?thesis unfolding py_strip_def d by simp
qed

lemma extract_links_loop_append:
  "extract_links_loop e (xs @ ys) base r
   = (case extract_links_loop e xs base r of
        Inl err \<Rightarrow> Inl err
      | Inr r' \<Rightarrow> extract_links_loop e ys base r')"
proof (induction xs arbitrary: r)
  case Nil
  show ?case by simp
next
  case (Cons x xs)
  obtain mk p t where x: "x = (mk, p, t)" by (cases x)
  show ?case
    by (simp add: x Cons.IH Let_def split: sum.splits)
qed

lemma extract_links_loop_skip:
  assumes "\<And>r. extract_links_loop e [x] base r = Inr r"
  shows "extract_links_loop e (xs @ x # ys) base r0 = extract_links_loop e (xs @ ys) base r0"
proof -
  have "extract_links_loop e (x # ys) base r = extract_links_loop e ys base r" for r
    using extract_links_loop_append[of e "[x]" ys base r] assms by simp
  then show ?thesis
    by (simp add: extract_links_loop_append[of e xs] split: sum.splits)
qed

text \<open>
  C10: when a tuple of \<open>re.findall\<close> has a target that consists of whitespace only
  (the empty target is the case of no character), \<open>_extract_links\<close> skips it: the
  extraction gives what it gives without that match, so nothing is appended to
  \<open>external_links\<close> or \<open>local_assets\<close> for it and \<open>urlparse\<close> is not called on it.
\<close>

theorem blank_target_skipped:
  assumes "re_findall3 link_pattern cont = xs @ (mark, path, title) # ys"
    and "list_all py_isspace path"
  shows "extract_links e cont base r = extract_links_loop e (xs @ ys) base r"
proof -
  have "extract_links_loop e [(mark, path, title)] base r' = Inr r'" for r'
    using assms(2) by (simp add: py_strip_all_space)
  then show ?thesis
    unfolding extract_links_def assms(1) by (rule extract_links_loop_skip)
qed

text \<open>
  The body \<open>[a](  )\<close> has one match, with the target of two spaces; the result is
  unchanged.
\<close>

theorem blank_target_skipped_witness:
  "re_findall3 link_pattern ''[a](  )'' = [] @ ([], ''  '', []) # []
   \<and> list_all py_isspace ''  ''
   \<and> extract_links (example_env ''[a](  )'' []) ''[a](  )'' ''/d'' (example_result ''[a](  )'')
      = Inr (example_result ''[a](  )'')"
proof -
  have 1: "re_findall3 link_pattern ''[a](  )'' = [] @ ([], ''  '', []) # []" by code_simp
  have 2: "list_all py_isspace ''  ''" by code_simp
  from blank_target_skipped [OF 1 2, of "example_env ''[a](  )'' []" "''/d''"
                               "example_result ''[a](  )''"] 1 2
  show ?thesis by simp
qed


lemma external_links_process_local_asset [simp]:
  "external_links (process_local_asset e mk p base r) = external_links r"
  by (simp add: process_local_asset_def Let_def)

lemma extract_links_loop_external:
  "extract_links_loop e mts base r = Inr r' \<Longrightarrow>
   external_links r'
   = external_links r
     @ filter (\<lambda>p. p \<noteq> [] \<and> (urlparse_scheme e p = Inr ''http'' \<or> urlparse_scheme e p = Inr ''https''))
         (map (\<lambda>(mk, p, t). py_strip p) mts)"
proof (induction mts arbitrary: r)
  case Nil
  then show ?case by simp
next
  case (Cons x mts)
  obtain mk p t where x: "x = (mk, p, t)" by (cases x)
  show ?case
  proof (cases "py_strip p = []")
    case True
    with Cons x show ?thesis by simp
  next
    case False
    show ?thesis
    proof (cases "urlparse_scheme e (py_strip p)")
      case (Inl err)
      with Cons.prems x False show ?thesis by simp
    next
      case (Inr s)
      show ?thesis
      proof (cases "s = ''http'' \<or> s = ''https''")
        case True
        with Cons.prems x False Inr
        have "extract_links_loop e mts base (r\<lparr>external_links := external_links r @ [py_strip p]\<rparr>) = Inr r'"
          by (simp add: Let_def)
        from Cons.IH[OF this] True x False Inr show ?thesis by auto
      next
        case F2: False
        with Cons.prems x False Inr
        have "extract_links_loop e mts base (process_local_asset e mk (py_strip p) base r) = Inr r'"
          by (simp add: Let_def)
        from Cons.IH[OF this] F2 x False Inr show ?thesis by auto
      qed
    qed
  qed
qed

lemma external_links_stripped:
  assumes "extract_links e cont base r = Inr r'"
  shows "external_links r'
         = external_links r
           @ filter (\<lambda>p. p \<noteq> [] \<and> (urlparse_scheme e p = Inr ''http'' \<or> urlparse_scheme e p = Inr ''https''))
               (map (\<lambda>(mk, p, t). py_strip p) (re_findall3 link_pattern cont))"
  using assms unfolding extract_links_def by (rule extract_links_loop_external)

lemma parse_Inr:
  assumes "fst (parse e self p) = Inr r"
  shows "\<exists>cont. read_text e (os_path_abspath e p) = Inr cont
          \<and> extract_links e cont (os_path_dirname (os_path_abspath e p))
               \<lparr>content = cont, file_path = os_path_abspath e p,
                dir_path = os_path_dirname (os_path_abspath e p),
                external_links = [], local_assets = [], cover_image = None,
                front_matter = extract_front_matter cont\<rparr> = Inr r"
  using assms
  by (auto simp: parse_def Let_def extract_cover_image_def
           split: if_splits sum.splits option.splits prod.splits)

lemma extract_links_loop_content:
  "extract_links_loop e mts base r = Inr r' \<Longrightarrow> content r' = content r"
proof (induction mts arbitrary: r)
  case Nil
  then show ?case by simp
next
  case (Cons x mts)
  obtain mk p t where x: "x = (mk, p, t)" by (cases x)
  from Cons.prems show ?case
    by (auto simp: x Let_def process_local_asset_def dest!: Cons.IH split: if_splits sum.splits)
qed

lemma extract_links_loop_cover_image:
  "extract_links_loop e mts base r = Inr r' \<Longrightarrow> cover_image r' = cover_image r"
proof (induction mts arbitrary: r)
  case Nil
  then show ?case by simp
next
  case (Cons x mts)
  obtain mk p t where x: "x = (mk, p, t)" by (cases x)
  from Cons.prems show ?case
    by (auto simp: x Let_def process_local_asset_def dest!: Cons.IH split: if_splits sum.splits)
qed

text \<open>For every document, a result that \<open>parse\<close> returns has no cover.\<close>

lemma parse_cover_image_None:
  assumes "fst (parse e self p) = Inr r"
  shows "cover_image r = None"
proof -
  from parse_Inr[OF assms] obtain cont where
    x: "extract_links e cont (os_path_dirname (os_path_abspath e p))
          \<lparr>content = cont, file_path = os_path_abspath e p,
           dir_path = os_path_dirname (os_path_abspath e p),
           external_links = [], local_assets = [], cover_image = None,
           front_matter = extract_front_matter cont\<rparr> = Inr r"
    by blast
  from extract_links_loop_cover_image[OF x[unfolded extract_links_def]]
  show ?thesis by simp
qed

text \<open>
  C4, amended: when \<open>parse\<close> returns a result, its \<open>external_links\<close> are the targets
  of the link matches of the text, each with leading and trailing whitespace stripped, that
  are not empty and have the scheme \<open>http\<close> or \<open>https\<close>, in the order of the matches
  and with duplicates kept. The list does not depend on which files exist.
\<close>

theorem parse_external_links:
  assumes "fst (parse e self p) = Inr r"
  shows "external_links r
         = filter (\<lambda>t. t \<noteq> [] \<and> (urlparse_scheme e t = Inr ''http'' \<or> urlparse_scheme e t = Inr ''https''))
             (map (\<lambda>(mark, target, title). py_strip target)
                (re_findall3 link_pattern (content r)))"
proof -
  from parse_Inr[OF assms] obtain cont r0 where
    r0: "r0 = \<lparr>content = cont, file_path = os_path_abspath e p,
                dir_path = os_path_dirname (os_path_abspath e p),
                external_links = [], local_assets = [], cover_image = None,
                front_matter = extract_front_matter cont\<rparr>"
    and x: "extract_links e cont (os_path_dirname (os_path_abspath e p)) r0 = Inr r"
    by blast
  from x have "content r = content r0"
    unfolding extract_links_def by (rule extract_links_loop_content)
  then have c: "content r = cont" by (simp add: r0)
  from external_links_stripped[OF x] show ?thesis by (simp add: r0 c)
qed

text \<open>
  A document with an external link that occurs twice, a missing local image and an
  external link with spaces inside the parentheses.
\<close>

theorem parse_external_links_witness:
  "fst (parse (example_env ''[a](http://x.org) ![i](pic.png) [b]( https://y.org ) [a](http://x.org)'' [])
          \<lparr>cover_path = None\<rparr> ''/d/post.md'')
   = Inr \<lparr>content = ''[a](http://x.org) ![i](pic.png) [b]( https://y.org ) [a](http://x.org)'',
          file_path = ''/d/post.md'', dir_path = ''/d'',
          external_links = [''http://x.org'', ''https://y.org'', ''http://x.org''],
          local_assets = [], cover_image = None, front_matter = []\<rparr>
   \<and> [''http://x.org'', ''https://y.org'', ''http://x.org'']
     = filter (\<lambda>t. t \<noteq> [] \<and> (py_urlparse_scheme t = Inr ''http'' \<or> py_urlparse_scheme t = Inr ''https''))
         (map (\<lambda>(mark, target, title). py_strip target)
            (re_findall3 link_pattern
               ''[a](http://x.org) ![i](pic.png) [b]( https://y.org ) [a](http://x.org)''))"
proof -
  have 1: "fst (parse (example_env ''[a](http://x.org) ![i](pic.png) [b]( https://y.org ) [a](http://x.org)'' [])
          \<lparr>cover_path = None\<rparr> ''/d/post.md'')
   = Inr \<lparr>content = ''[a](http://x.org) ![i](pic.png) [b]( https://y.org ) [a](http://x.org)'',
          file_path = ''/d/post.md'', dir_path = ''/d'',
          external_links = [''http://x.org'', ''https://y.org'', ''http://x.org''],
          local_assets = [], cover_image = None, front_matter = []\<rparr>"
    by code_simp
  from parse_external_links[OF 1] 1 show ?thesis by (simp add: example_env_def)
qed

text \<open>
  C4, as the claim states it, fails: the body \<open>[x]( http://a.com )\<close> has one match with
  the target \<open>" http://a.com "\<close>, of scheme \<open>http\<close>; \<open>external_links\<close> holds the
  stripped string \<open>"http://a.com"\<close>, not the target with its surrounding whitespace.
\<close>

theorem external_link_verbatim_counterexample:
  "re_findall3 link_pattern ''[x]( http://a.com )'' = [([], '' http://a.com '', [])]
   \<and> py_urlparse_scheme '' http://a.com '' = Inr ''http''
   \<and> map_sum id external_links
        (fst (parse (example_env ''[x]( http://a.com )'' []) \<lparr>cover_path = None\<rparr> ''/d/post.md''))
      = Inr [''http://a.com'']
   \<and> [''http://a.com''] \<noteq> ['' http://a.com '']"
  by code_simp


section \<open>Properties of the front matter extractor\<close>

lemma ms_Seq_Atom:
  "ms (Seq (Atom c) k) (p, cs, s)
   = (case s of [] \<Rightarrow> [] | x # xs \<Rightarrow> if cmatch c x then ms k (Suc p, cs, xs) else [])"
  by (cases s) simp_all

lemma ms_Seq_Star:
  "ms (Seq (Star c) k) (p, cs, x # xs)
   = (if cmatch c x then ms (Seq (Star c) k) (Suc p, cs, xs) else []) @ ms k (p, cs, x # xs)"
  by simp

lemma ms_Seq_Star_Nil: "ms (Seq (Star c) k) (p, cs, []) = ms k (p, cs, [])"
  by simp

lemma front_matter_pattern_unfold:
  "front_matter_pattern
   = Seq Bol (Seq (Atom (Lit (CHR ''-''))) (Seq (Atom (Lit (CHR ''-'')))
       (Seq (Atom (Lit (CHR ''-''))) (Seq (Star Space) fm_open))))"
  by (simp add: front_matter_pattern_def fm_open_def fm_close_def lit_def)

lemma star_greedy_nonempty: "star_greedy c p s \<noteq> []"
  by (cases s) simp_all

lemma fm_close_fence:
  "ms fm_close (q, cs, NL # CHR ''-'' # CHR ''-'' # CHR ''-'' # rest)
   = map (\<lambda>(q', r). (q', cs, r)) (star_greedy Space (q + 4) rest)"
  by (simp add: fm_close_def ms_Seq_Atom eval_nat_numeral del: ms.simps(5))

lemma fm_close_no_fence:
  "\<not> prefix (NL # ''---'') s \<Longrightarrow> ms fm_close (q, cs, s) = []"
  by (auto simp: fm_close_def ms_Seq_Atom simp del: ms.simps(5) split: list.splits)

lemma lazy_skip:
  assumes "\<forall>x \<in> set b. cmatch c x"
    and "\<And>b1 b2. b = b1 @ b2 \<Longrightarrow> b2 \<noteq> [] \<Longrightarrow> h (q + length b1, b2 @ s) = []"
  shows "concat (map h (star_lazy c q (b @ s))) = concat (map h (star_lazy c (q + length b) s))"
  using assms
proof (induction b arbitrary: q)
  case Nil
  show ?case by simp
next
  case (Cons x b)
  have 0: "h (q, (x # b) @ s) = []"
    using Cons.prems(2)[of "[]" "x # b"] by simp
  have 1: "concat (map h (star_lazy c (Suc q) (b @ s)))
           = concat (map h (star_lazy c (Suc q + length b) s))"
  proof (rule Cons.IH)
    show "\<forall>x \<in> set b. cmatch c x" using Cons.prems(1) by simp
  next
    fix b1 b2 assume "b = b1 @ b2" "b2 \<noteq> []"
    then show "h (Suc q + length b1, b2 @ s) = []"
      using Cons.prems(2)[of "x # b1" b2] by simp
  qed
  from Cons.prems(1) 0 1 show ?case by simp
qed


lemma skip_chars:
  assumes "\<forall>x \<in> set b. cmatch c x" and "NL \<notin> set b"
    and P: "\<And>q s. \<not> prefix (NL # ''---'') s \<Longrightarrow> h (q, s) = []"
  shows "concat (map h (star_lazy c q (b @ s))) = concat (map h (star_lazy c (q + length b) s))"
proof (rule lazy_skip[OF assms(1)])
  fix b1 b2 assume "b = b1 @ b2" "b2 \<noteq> []"
  with assms(2) have "hd b2 \<noteq> NL" by (cases b2) auto
  with \<open>b2 \<noteq> []\<close> have "\<not> prefix (NL # ''---'') (b2 @ s)" by (cases b2) auto
  then show "h (q + length b1, b2 @ s) = []" by (rule P)
qed

lemma no_dash_prefix:
  "\<not> prefix ''---'' l \<Longrightarrow> \<not> prefix ''---'' (l @ NL # t)"
  by (cases l; cases "tl l"; cases "tl (tl l)") auto

lemma skip_lines:
  assumes c: "\<And>x. cmatch c x"
    and P: "\<And>q s. \<not> prefix (NL # ''---'') s \<Longrightarrow> h (q, s) = []"
    and "\<forall>l \<in> set ls. NL \<notin> set l" and "\<forall>l \<in> set ls. \<not> prefix ''---'' l"
  shows "concat (map h (star_lazy c q (concat (map ((#) NL) ls) @ NL # t)))
         = concat (map h (star_lazy c (q + length (concat (map ((#) NL) ls))) (NL # t)))"
  using assms(3,4)
proof (induction ls arbitrary: q)
  case Nil
  show ?case by simp
next
  case (Cons l ls)
  let ?X = "concat (map ((#) NL) ls) @ NL # t"
  have X: "\<exists>t'. ?X = NL # t'" by (cases ls) auto
  then obtain t' where t': "?X = NL # t'" ..
  from Cons.prems have "\<not> prefix ''---'' l" by simp
  then have "\<not> prefix ''---'' (l @ ?X)" unfolding t' by (rule no_dash_prefix)
  then have "\<not> prefix (NL # ''---'') (NL # l @ ?X)" by simp
  then have 0: "h (q, NL # l @ ?X) = []" by (rule P)
  have 1: "concat (map h (star_lazy c (Suc q) (l @ ?X)))
           = concat (map h (star_lazy c (Suc q + length l) ?X))"
    using Cons.prems by (intro skip_chars P) (auto simp: c)
  have 2: "concat (map h (star_lazy c (Suc q + length l) ?X))
           = concat (map h (star_lazy c (Suc q + length l + length (concat (map ((#) NL) ls))) (NL # t)))"
    using Cons.prems by (intro Cons.IH) auto
  have 3: "concat (map h (star_lazy c q (NL # l @ ?X)))
           = concat (map h (star_lazy c (Suc q) (l @ ?X)))"
    using 0 by (simp add: c)
  have e: "Suc q + length l + length (concat (map ((#) NL) ls))
           = q + length (concat (map ((#) NL) (l # ls)))"
    by simp
  have "concat (map h (star_lazy c q (NL # l @ ?X)))
        = concat (map h (star_lazy c (q + length (concat (map ((#) NL) (l # ls)))) (NL # t)))"
    unfolding 3 1 2 e ..
  then show ?case by (simp del: star_lazy.simps)
qed

lemma fm_group_lines:
  assumes "\<forall>l \<in> set (l0 # ls). NL \<notin> set l" and "\<forall>l \<in> set ls. \<not> prefix ''---'' l"
  shows "\<exists>tl. ms (Seq (Group 1 (StarLazy AnyChar)) fm_close)
                (q0, cs, l0 @ concat (map ((#) NL) ls) @ NL # ''---'' @ rest)
            = map (\<lambda>(q', r). (q', (1, l0 @ concat (map ((#) NL) ls)) # cs, r))
                (star_greedy Space (q0 + length (l0 @ concat (map ((#) NL) ls)) + 4) rest) @ tl"
proof -
  let ?b = "l0 @ concat (map ((#) NL) ls)"
  let ?T = "?b @ NL # ''---'' @ rest"
  define h where "h = (\<lambda>(q, r). ms fm_close (q, (1, take (q - q0) ?T) # cs, r))"
  have P: "h (q, s) = []" if "\<not> prefix (NL # ''---'') s" for q s
    using that by (simp add: h_def fm_close_no_fence)
  have 0: "ms (Seq (Group 1 (StarLazy AnyChar)) fm_close) (q0, cs, ?T)
           = concat (map h (star_lazy AnyChar q0 ?T))"
    by (simp add: h_def comp_def case_prod_unfold)
  have 1: "concat (map h (star_lazy AnyChar q0 (l0 @ concat (map ((#) NL) ls) @ NL # ''---'' @ rest)))
           = concat (map h (star_lazy AnyChar (q0 + length l0) (concat (map ((#) NL) ls) @ NL # ''---'' @ rest)))"
    using assms(1) by (intro skip_chars P) auto
  have 2: "concat (map h (star_lazy AnyChar (q0 + length l0) (concat (map ((#) NL) ls) @ NL # ''---'' @ rest)))
           = concat (map h (star_lazy AnyChar (q0 + length l0 + length (concat (map ((#) NL) ls))) (NL # ''---'' @ rest)))"
    using assms by (intro skip_lines P) auto
  have 3: "h (q0 + length ?b, NL # ''---'' @ rest)
           = map (\<lambda>(q', r). (q', (1, ?b) # cs, r)) (star_greedy Space (q0 + length ?b + 4) rest)"
    by (simp add: h_def fm_close_fence del: ms.simps)
  have e: "q0 + length l0 + length (concat (map ((#) NL) ls)) = q0 + length ?b" by simp
  have "concat (map h (star_lazy AnyChar q0 ?T))
        = concat (map h (star_lazy AnyChar (q0 + length ?b) (NL # ''---'' @ rest)))"
    using 1 2 unfolding e by (simp del: star_lazy.simps)
  also have "\<dots> = h (q0 + length ?b, NL # ''---'' @ rest)
                  @ concat (map h (star_lazy AnyChar (Suc (q0 + length ?b)) (''---'' @ rest)))"
    by simp
  finally have "ms (Seq (Group 1 (StarLazy AnyChar)) fm_close) (q0, cs, ?T)
        = map (\<lambda>(q', r). (q', (1, ?b) # cs, r)) (star_greedy Space (q0 + length ?b + 4) rest)
          @ concat (map h (star_lazy AnyChar (Suc (q0 + length ?b)) (''---'' @ rest)))"
    unfolding 0 3 .
  then have "ms (Seq (Group 1 (StarLazy AnyChar)) fm_close)
               (q0, cs, l0 @ concat (map ((#) NL) ls) @ NL # ''---'' @ rest)
        = map (\<lambda>(q', r). (q', (1, ?b) # cs, r)) (star_greedy Space (q0 + length ?b + 4) rest)
          @ concat (map h (star_lazy AnyChar (Suc (q0 + length ?b)) (''---'' @ rest)))"
    by (simp only: append_assoc)
  then show ?thesis ..
qed


lemma py_isspace_NL [simp]: "py_isspace NL"
  by (simp add: py_isspace_def)

lemma greedy_fail:
  "\<exists>x \<in> set l. \<not> py_isspace x \<Longrightarrow> NL \<notin> set l \<Longrightarrow>
   ms (Seq (Star Space) fm_open) (q, cs, l @ t) = []"
proof (induction l arbitrary: q)
  case Nil
  then show ?case by simp
next
  case (Cons y l)
  from Cons.prems(2) have y: "y \<noteq> NL" and l: "NL \<notin> set l" by auto
  have 0: "ms fm_open (q, cs, y # l @ t) = []"
    using y by (simp add: fm_open_def ms_Seq_Atom del: ms.simps(5))
  show ?case
  proof (cases "py_isspace y")
    case True
    with Cons.prems(1) have "\<exists>x \<in> set l. \<not> py_isspace x" by auto
    from Cons.IH[OF this l] 0 show ?thesis
      by (simp add: ms_Seq_Star del: ms.simps(5))
  next
    case False
    with 0 show ?thesis by (simp add: ms_Seq_Star del: ms.simps(5))
  qed
qed

lemma greedy_blank:
  assumes "\<forall>x \<in> set w. py_isspace x"
    and "ms (Seq (Star Space) fm_open) (Suc (p + length w), cs, t) = []"
  shows "\<exists>tl. ms (Seq (Star Space) fm_open) (p, cs, w @ NL # t)
              = ms fm_open (p + length w, cs, NL # t) @ tl"
  using assms
proof (induction w arbitrary: p)
  case Nil
  then show ?case by (simp add: ms_Seq_Star del: ms.simps(5))
next
  case (Cons x w)
  from Cons.prems have "\<forall>x \<in> set w. py_isspace x"
    and "ms (Seq (Star Space) fm_open) (Suc (Suc p + length w), cs, t) = []"
    by auto
  from Cons.IH[OF this] obtain tl where
    "ms (Seq (Star Space) fm_open) (Suc p, cs, w @ NL # t)
     = ms fm_open (Suc p + length w, cs, NL # t) @ tl" ..
  with Cons.prems(1) show ?case by (simp add: ms_Seq_Star del: ms.simps(5))
qed

lemma py_join_lines: "py_join [NL] (l # ls) = l @ concat (map ((#) NL) ls)"
  by (induction ls arbitrary: l) simp_all

lemma fm_match:
  assumes H1: "\<forall>l \<in> set ls. NL \<notin> set l"
    and H2: "\<forall>l \<in> set ls. \<not> prefix ''---'' l"
    and H3: "\<exists>l \<in> set ls. \<not> list_all py_isspace l"
  shows "\<exists>e r tl. ms front_matter_pattern
                    (0, [], ''---'' @ concat (map ((#) NL) ls) @ NL # ''---'' @ rest)
                  = (e, [(1, py_join [NL] (dropWhile (list_all py_isspace) ls))], r) # tl"
proof -
  from split_list_first_prop[OF H3] obtain bs l ls' where
    ls: "ls = bs @ l # ls'" and l: "\<not> list_all py_isspace l"
    and bs: "\<forall>b \<in> set bs. list_all py_isspace b" by blast
  let ?w = "concat (map ((#) NL) bs)"
  let ?b = "l @ concat (map ((#) NL) ls')"
  let ?t = "?b @ NL # ''---'' @ rest"
  have dw: "dropWhile (list_all py_isspace) ls = l # ls'"
    using ls l bs by (simp add: dropWhile_append3)
  have w: "\<forall>x \<in> set ?w. py_isspace x"
    using bs by (auto simp: list_all_iff)
  have lx: "\<exists>x \<in> set l. \<not> py_isspace x" using l by (simp add: list_all_iff)
  have lnl: "NL \<notin> set l" using H1 ls by simp
  have "ms (Seq (Star Space) fm_open) (Suc (3 + length ?w), [], l @ (concat (map ((#) NL) ls') @ NL # ''---'' @ rest)) = []"
    using lx lnl by (rule greedy_fail)
  then have "ms (Seq (Star Space) fm_open) (Suc (3 + length ?w), [], ?t) = []"
    by (simp only: append_assoc)
  from greedy_blank[OF w this] obtain tl1 where
    1: "ms (Seq (Star Space) fm_open) (3, [], ?w @ NL # ?t)
        = ms fm_open (3 + length ?w, [], NL # ?t) @ tl1" ..
  have 2: "ms fm_open (3 + length ?w, [], NL # ?t)
           = ms (Seq (Group 1 (StarLazy AnyChar)) fm_close) (Suc (3 + length ?w), [], ?t)"
    by (simp add: fm_open_def ms_Seq_Atom del: ms.simps(5))
  have "\<forall>x \<in> set (l # ls'). NL \<notin> set x" "\<forall>x \<in> set ls'. \<not> prefix ''---'' x"
    using H1 H2 ls by auto
  from fm_group_lines[OF this, of "Suc (3 + length ?w)" "[]" rest] obtain tl2 where
    3: "ms (Seq (Group 1 (StarLazy AnyChar)) fm_close)
          (Suc (3 + length ?w), [], l @ concat (map ((#) NL) ls') @ NL # ''---'' @ rest)
        = map (\<lambda>(q', r). (q', [(1, ?b)], r))
            (star_greedy Space (Suc (3 + length ?w) + length ?b + 4) rest) @ tl2" ..
  obtain e r tl3 where
    4: "star_greedy Space (Suc (3 + length ?w) + length ?b + 4) rest = (e, r) # tl3"
    using star_greedy_nonempty[of Space "Suc (3 + length ?w) + length ?b + 4" rest]
    by (cases "star_greedy Space (Suc (3 + length ?w) + length ?b + 4) rest") auto
  have 5: "ms (Seq (Group 1 (StarLazy AnyChar)) fm_close) (Suc (3 + length ?w), [], ?t)
           = (e, [(1, ?b)], r) # (map (\<lambda>(q', r). (q', [(1, ?b)], r)) tl3 @ tl2)"
    using 3 unfolding 4 by (simp only: append_assoc) simp
  have 6: "ms front_matter_pattern (0, [], ''---'' @ ?w @ NL # ?t)
           = ms (Seq (Star Space) fm_open) (3, [], ?w @ NL # ?t)"
    by (simp add: front_matter_pattern_unfold ms_Seq_Atom eval_nat_numeral del: ms.simps(5))
       simp
  have 7: "''---'' @ concat (map ((#) NL) ls) @ NL # ''---'' @ rest = ''---'' @ ?w @ NL # ?t"
    by (simp add: ls)
  show ?thesis
    unfolding 7 6 1 2 5 dw py_join_lines by simp
qed

lemma dropWhile_stop: "\<not> P c \<Longrightarrow> dropWhile P (a @ c # b) = dropWhile P a @ c # b"
  by (induction a) simp_all

lemma rstrip_stop:
  "\<not> P c \<Longrightarrow> rev (dropWhile P (rev (a @ c # b))) = a @ c # rev (dropWhile P (rev b))"
  by (simp add: dropWhile_stop)

lemma strip_commute:
  "dropWhile P (rev (dropWhile P (rev x))) = rev (dropWhile P (rev (dropWhile P x)))"
proof (cases "\<exists>c \<in> set x. \<not> P c")
  case False
  then have a: "dropWhile P x = []" and b: "dropWhile P (rev x) = []" by auto
  show ?thesis unfolding a b by simp
next
  case True
  from split_list_first_prop[OF True] obtain a c y where
    x: "x = a @ c # y" and c: "\<not> P c" and a: "\<forall>z \<in> set a. \<not> \<not> P z" by blast
  from a have a': "dropWhile P a = []" by simp
  have l: "dropWhile P x = c # y" using c a' by (simp add: x dropWhile_stop)
  have "rev (dropWhile P (rev x)) = a @ c # rev (dropWhile P (rev y))"
    unfolding x by (rule rstrip_stop[of P c, OF c])
  then have "dropWhile P (rev (dropWhile P (rev x))) = c # rev (dropWhile P (rev y))"
    using c a' by (simp add: dropWhile_stop)
  moreover have "rev (dropWhile P (rev (dropWhile P x))) = c # rev (dropWhile P (rev y))"
    unfolding l using rstrip_stop[of P c "[]" y, OF c] by simp
  ultimately show ?thesis by simp
qed

lemma py_strip_rstrip:
  "py_strip (rev (dropWhile py_isspace (rev b))) = py_strip b"
proof -
  have "py_strip (rev (dropWhile py_isspace (rev b)))
        = rev (dropWhile py_isspace (rev (dropWhile py_isspace (rev (dropWhile py_isspace (rev b))))))"
    by (simp add: py_strip_def)
  also have "\<dots> = rev (dropWhile py_isspace (rev (rev (dropWhile py_isspace (rev (dropWhile py_isspace b))))))"
    by (simp only: strip_commute)
  also have "\<dots> = py_strip b" by (simp add: py_strip_def)
  finally show ?thesis .
qed

lemma py_strip_lstrip: "py_strip (dropWhile py_isspace a) = py_strip a"
  by (simp add: py_strip_def)

lemma colon_not_space [simp]: "\<not> py_isspace (CHR '':'')"
  by (simp add: py_isspace_def)

lemma py_strip_colon:
  assumes "CHR '':'' \<in> set l"
  shows "py_strip l = dropWhile py_isspace (takeWhile (\<lambda>c. c \<noteq> CHR '':'') l)
                      @ CHR '':'' # rev (dropWhile py_isspace (rev (tl (dropWhile (\<lambda>c. c \<noteq> CHR '':'') l))))"
proof -
  let ?a = "takeWhile (\<lambda>c. c \<noteq> CHR '':'') l"
  let ?b = "tl (dropWhile (\<lambda>c. c \<noteq> CHR '':'') l)"
  from assms have "dropWhile (\<lambda>c. c \<noteq> CHR '':'') l \<noteq> []" by simp
  moreover have "hd (dropWhile (\<lambda>c. c \<noteq> CHR '':'') l) = CHR '':''"
    using assms hd_dropWhile[of "\<lambda>c. c \<noteq> CHR '':''" l] calculation by auto
  ultimately have d: "dropWhile (\<lambda>c. c \<noteq> CHR '':'') l = CHR '':'' # ?b"
    by (cases "dropWhile (\<lambda>c. c \<noteq> CHR '':'') l") auto
  have l: "l = ?a @ CHR '':'' # ?b"
    using takeWhile_dropWhile_id[of "\<lambda>c. c \<noteq> CHR '':''" l] d by simp
  have "py_strip (?a @ CHR '':'' # ?b)
        = dropWhile py_isspace ?a @ CHR '':'' # rev (dropWhile py_isspace (rev ?b))"
    by (simp add: py_strip_def dropWhile_stop)
  with l show ?thesis by simp
qed

lemma front_matter_line_entry:
  "map_of (front_matter_line l fm)
   = (case spec_entry l of None \<Rightarrow> map_of fm | Some (k, v) \<Rightarrow> (map_of fm)(k \<mapsto> v))"
proof (cases "dropWhile py_isspace l")
  case Nil
  have "py_strip l = []" unfolding py_strip_def Nil by simp
  moreover from Nil have "spec_blank l" by (simp add: spec_blank_def list_all_iff)
  ultimately show ?thesis by (simp add: front_matter_line_def spec_entry_def)
next
  case (Cons c y)
  then have c: "\<not> py_isspace c" using hd_dropWhile[of py_isspace l] by auto
  have s: "py_strip l = c # rev (dropWhile py_isspace (rev y))"
    unfolding py_strip_def Cons using rstrip_stop[of py_isspace c "[]" y, OF c] by simp
  have "dropWhile py_isspace l \<noteq> []" using Cons by simp
  then have nb: "\<not> spec_blank l"
    by (simp add: spec_blank_def list_all_iff)
  have cm: "py_startswith (py_strip l) ''#'' \<longleftrightarrow> spec_comment l"
    by (auto simp: s py_startswith_def spec_comment_def Cons)
  show ?thesis
  proof (cases "CHR '':'' \<in> set l")
    case False
    have "set (py_strip l) \<subseteq> set l"
      unfolding py_strip_def by (metis set_dropWhileD set_rev subsetI)
    with False have "CHR '':'' \<notin> set (py_strip l)" by auto
    with False s show ?thesis
      by (simp add: front_matter_line_def spec_entry_def Let_def)
  next
    case True
    let ?a = "takeWhile (\<lambda>c. c \<noteq> CHR '':'') l"
    let ?b = "tl (dropWhile (\<lambda>c. c \<noteq> CHR '':'') l)"
    let ?a' = "dropWhile py_isspace ?a"
    let ?b' = "rev (dropWhile py_isspace (rev ?b))"
    have d: "py_strip l = ?a' @ CHR '':'' # ?b'" by (rule py_strip_colon[OF True])
    have na: "\<forall>x \<in> set ?a'. x \<noteq> CHR '':''"
      by (metis (mono_tags, lifting) set_dropWhileD set_takeWhileD)
    have k: "takeWhile (\<lambda>c. c \<noteq> CHR '':'') (py_strip l) = ?a'"
      unfolding d using na by (simp add: takeWhile_tail)
    have v: "tl (dropWhile (\<lambda>c. c \<noteq> CHR '':'') (py_strip l)) = ?b'"
      unfolding d using na by (simp add: dropWhile_append3)
    have in_s: "CHR '':'' \<in> set (py_strip l)" unfolding d by simp
    have ne: "py_strip l \<noteq> []" using s by simp
    show ?thesis
      using True nb cm in_s ne
      by (simp add: front_matter_line_def spec_entry_def Let_def py_split1_def k v
                    py_strip_lstrip py_strip_rstrip update_conv')
  qed
qed

lemma fold_front_matter_spec:
  "map_of (fold front_matter_line ls fm)
   = foldl (\<lambda>m l. case spec_entry l of None \<Rightarrow> m | Some (k, v) \<Rightarrow> m(k \<mapsto> v)) (map_of fm) ls"
  by (induction ls arbitrary: fm) (simp_all add: front_matter_line_entry)

lemma ms_Seq_Bol:
  "ms (Seq Bol k) (p, cs, s) = (if p = 0 then ms k (p, cs, s) else [])"
  by simp

lemma py_split_line:
  "NL \<notin> set l \<Longrightarrow> py_split NL (l @ NL # t) = l # py_split NL t"
  by (induction l) auto

lemma py_split_no_sep: "NL \<notin> set l \<Longrightarrow> py_split NL l = [l]"
  by (induction l) auto

lemma py_split_lines:
  "\<forall>x \<in> set (l # ls). NL \<notin> set x \<Longrightarrow>
   py_split NL (l @ concat (map ((#) NL) ls)) = l # ls"
proof (induction ls arbitrary: l)
  case Nil
  then show ?case by (simp add: py_split_no_sep)
next
  case (Cons a ls)
  from Cons.prems have "NL \<notin> set l" and "\<forall>x \<in> set (a # ls). NL \<notin> set x" by auto
  with Cons.IH[of a] show ?case by (simp add: py_split_line)
qed

lemma front_matter_line_blank:
  "list_all py_isspace l \<Longrightarrow> front_matter_line l fm = fm"
  by (simp add: front_matter_line_def py_strip_all_space)

lemma fold_front_matter_dropWhile:
  "fold front_matter_line (dropWhile (list_all py_isspace) ls) fm
   = fold front_matter_line ls fm"
  by (induction ls) (simp_all add: front_matter_line_blank)

lemma fm_no_match_later:
  "0 < p \<Longrightarrow> search_from front_matter_pattern p s = None"
proof (induction s arbitrary: p)
  case Nil
  then show ?case
    by (simp add: try_at_def front_matter_pattern_unfold ms_Seq_Bol del: ms.simps(5))
next
  case (Cons x s)
  from Cons.prems have "try_at front_matter_pattern p (x # s) = None"
    by (simp add: try_at_def front_matter_pattern_unfold ms_Seq_Bol del: ms.simps(5))
  with Cons.IH[of "Suc p"] show ?case by simp
qed

lemma fm_no_block:
  assumes "\<not> prefix ''---'' doc"
  shows "re_search front_matter_pattern doc = None"
proof -
  have "ms (Seq (Atom (Lit (CHR ''-''))) (Seq (Atom (Lit (CHR ''-'')))
          (Seq (Atom (Lit (CHR ''-''))) (Seq (Star Space) fm_open)))) (0, [], doc) = []"
    using assms by (auto simp: ms_Seq_Atom simp del: ms.simps(5) split: list.splits)
  then have t: "try_at front_matter_pattern 0 doc = None"
    by (simp add: try_at_def front_matter_pattern_unfold ms_Seq_Bol del: ms.simps(5))
  show ?thesis
  proof (cases doc)
    case Nil
    with t show ?thesis by (simp add: re_search_def)
  next
    case (Cons x s)
    with t show ?thesis by (simp add: re_search_def fm_no_match_later)
  qed
qed

lemma fm_search:
  assumes "\<forall>l \<in> set ls. NL \<notin> set l"
    and "\<forall>l \<in> set ls. \<not> prefix ''---'' l"
    and "\<exists>l \<in> set ls. \<not> list_all py_isspace l"
  shows "\<exists>m. re_search front_matter_pattern
               (''---'' @ NL # py_join [NL] ls @ NL # ''---'' @ rest) = Some m
             \<and> m_group m 1 = py_join [NL] (dropWhile (list_all py_isspace) ls)"
proof -
  from assms(3) obtain l0 ls0 where ls: "ls = l0 # ls0" by (cases ls) auto
  have d: "''---'' @ NL # py_join [NL] ls @ NL # ''---'' @ rest
           = ''---'' @ concat (map ((#) NL) ls) @ NL # ''---'' @ rest"
    by (simp add: ls py_join_lines)
  from fm_match[OF assms, of rest] obtain e r tl where
    "ms front_matter_pattern (0, [], ''---'' @ concat (map ((#) NL) ls) @ NL # ''---'' @ rest)
     = (e, [(1, py_join [NL] (dropWhile (list_all py_isspace) ls))], r) # tl"
    by blast
  then have "try_at front_matter_pattern 0 (''---'' @ concat (map ((#) NL) ls) @ NL # ''---'' @ rest)
       = Some \<lparr>m_start = 0, m_end = e,
               m_whole = take (e - 0) (''---'' @ concat (map ((#) NL) ls) @ NL # ''---'' @ rest),
               m_caps = [(1, py_join [NL] (dropWhile (list_all py_isspace) ls))]\<rparr>"
    by (simp add: try_at_def)
  then show ?thesis
    unfolding d by (simp add: re_search_def m_group_def)
qed

lemma spec_front_matter_blank:
  "\<forall>l \<in> set ls. spec_blank l \<Longrightarrow>
   foldl (\<lambda>m l. case spec_entry l of None \<Rightarrow> m | Some (k, v) \<Rightarrow> m(k \<mapsto> v)) m0 ls = m0"
  by (induction ls arbitrary: m0) (simp_all add: spec_entry_def)

lemma star_then_shape:
  "ms (Seq (Star Space) k) (p, cs, s) \<noteq> [] \<Longrightarrow>
   \<exists>w s'. s = w @ s' \<and> list_all py_isspace w \<and> ms k (p + length w, cs, s') \<noteq> []"
proof (induction s arbitrary: p)
  case Nil
  then have "ms k (p, cs, []) \<noteq> []" by simp
  then show ?case by (intro exI[of _ "[]"]) simp
next
  case (Cons x s)
  show ?case
  proof (cases "ms k (p, cs, x # s) \<noteq> []")
    case True
    then show ?thesis by (intro exI[of _ "[]"] exI[of _ "x # s"]) simp
  next
    case False
    with Cons.prems have x: "py_isspace x"
      and r: "ms (Seq (Star Space) k) (Suc p, cs, s) \<noteq> []"
      by (auto simp: ms_Seq_Star simp del: ms.simps(5) split: if_splits)
    from Cons.IH[OF r] obtain w s' where
      "s = w @ s'" "list_all py_isspace w" "ms k (Suc p + length w, cs, s') \<noteq> []" by blast
    with x show ?thesis
      by (intro exI[of _ "x # w"] exI[of _ s']) simp
  qed
qed

lemma lazy_then_shape:
  "concat (map h (star_lazy c q s)) \<noteq> [] \<Longrightarrow>
   \<exists>b s'. s = b @ s' \<and> h (q + length b, s') \<noteq> []"
proof (induction s arbitrary: q)
  case Nil
  then show ?case by simp
next
  case (Cons x s)
  show ?case
  proof (cases "h (q, x # s) \<noteq> []")
    case True
    then show ?thesis by (intro exI[of _ "[]"] exI[of _ "x # s"]) simp
  next
    case False
    with Cons.prems have "concat (map h (star_lazy c (Suc q) s)) \<noteq> []"
      by (auto split: if_splits)
    from Cons.IH[OF this] obtain b s' where "s = b @ s'" "h (Suc q + length b, s') \<noteq> []"
      by blast
    then show ?thesis by (intro exI[of _ "x # b"] exI[of _ s']) simp
  qed
qed

lemma fm_open_shape:
  assumes "ms fm_open (q, cs, s) \<noteq> []"
  shows "\<exists>body rest. s = NL # body @ NL # ''---'' @ rest"
proof -
  from assms obtain s1 where s: "s = NL # s1"
    and m: "ms (Seq (Group 1 (StarLazy AnyChar)) fm_close) (Suc q, cs, s1) \<noteq> []"
    by (auto simp: fm_open_def ms_Seq_Atom simp del: ms.simps(5) split: list.splits if_splits)
  define h where "h = (\<lambda>(q', r). ms fm_close (q', (1, take (q' - Suc q) s1) # cs, r))"
  have eq: "ms (Seq (Group 1 (StarLazy AnyChar)) fm_close) (Suc q, cs, s1)
            = concat (map h (star_lazy AnyChar (Suc q) s1))"
    by (simp add: h_def comp_def case_prod_unfold)
  from m have "concat (map h (star_lazy AnyChar (Suc q) s1)) \<noteq> []" unfolding eq .
  from lazy_then_shape[OF this] obtain b s' where
    b: "s1 = b @ s'" and "h (Suc q + length b, s') \<noteq> []" by blast
  then have "prefix (NL # ''---'') s'"
    using fm_close_no_fence[of s'] by (auto simp: h_def)
  then obtain rest where "s' = (NL # ''---'') @ rest" by (auto simp: prefix_def)
  with s b show ?thesis by auto
qed

lemma fm_match_shape:
  assumes "ms front_matter_pattern (0, [], doc) \<noteq> []"
  shows "\<exists>w body rest. list_all py_isspace w
                       \<and> doc = ''---'' @ w @ NL # body @ NL # ''---'' @ rest"
proof -
  from assms obtain s0 where d: "doc = ''---'' @ s0"
    and m: "ms (Seq (Star Space) fm_open) (3, [], s0) \<noteq> []"
    by (auto simp: front_matter_pattern_unfold ms_Seq_Bol ms_Seq_Atom eval_nat_numeral
             simp del: ms.simps(5) split: list.splits if_splits)
  from star_then_shape[OF m] obtain w s' where
    w: "s0 = w @ s'" "list_all py_isspace w" and "ms fm_open (3 + length w, [], s') \<noteq> []"
    by blast
  from fm_open_shape[OF this(3)] obtain body rest where "s' = NL # body @ NL # ''---'' @ rest"
    by blast
  with d w show ?thesis by auto
qed

text \<open>
  A document that is not of the form: \<open>---\<close>, whitespace, a line feed, some text, a line
  feed, \<open>---\<close>, some text, has the empty front matter. Among them are the documents
  that do not start with \<open>---\<close>, those whose first line has other text than whitespace
  behind the dashes, and those in which no line after the first starts with \<open>---\<close>.
\<close>

lemma front_matter_no_block:
  assumes "\<not> (\<exists>w body rest. list_all py_isspace w
                  \<and> doc = ''---'' @ w @ NL # body @ NL # ''---'' @ rest)"
  shows "extract_front_matter doc = []"
proof -
  from assms have "ms front_matter_pattern (0, [], doc) = []"
    using fm_match_shape[of doc] by blast
  then have t: "try_at front_matter_pattern 0 doc = None" by (simp add: try_at_def)
  have "re_search front_matter_pattern doc = None"
  proof (cases doc)
    case Nil
    with t show ?thesis by (simp add: re_search_def)
  next
    case (Cons x s)
    with t show ?thesis by (simp add: re_search_def fm_no_match_later)
  qed
  then show ?thesis by (simp add: extract_front_matter_def)
qed

text \<open>
  What the extractor does on a document that starts with the line \<open>---\<close>, then the lines
  \<open>ls\<close>, none of which starts with \<open>---\<close>, then a line that starts with \<open>---\<close>: the
  front matter contains the mapping that the specification words for the lines \<open>ls\<close> (for
  each line that is not blank, not a comment and has a colon, the entry of the trimmed
  lower-case key before the first colon and the trimmed value after it, the last entry of
  a key winning; the other lines are skipped), and is exactly that mapping when some line
  is not blank.
\<close>

lemma front_matter_block_lines:
  "(\<not> prefix ''---'' doc \<longrightarrow> extract_front_matter doc = [])
   \<and> (list_all (\<lambda>l. NL \<notin> set l \<and> \<not> prefix ''---'' l) ls
      \<longrightarrow> spec_front_matter ls
            \<subseteq>\<^sub>m map_of (extract_front_matter
                        (''---'' @ NL # py_join [NL] ls @ NL # ''---'' @ rest))
          \<and> (list_ex (\<lambda>l. \<not> spec_blank l) ls
               \<longrightarrow> map_of (extract_front_matter
                             (''---'' @ NL # py_join [NL] ls @ NL # ''---'' @ rest))
                    = spec_front_matter ls))"
proof (intro conjI impI)
  assume "\<not> prefix ''---'' doc"
  then show "extract_front_matter doc = []"
    by (simp add: extract_front_matter_def fm_no_block)
next
  let ?doc = "''---'' @ NL # py_join [NL] ls @ NL # ''---'' @ rest"
  assume h: "list_all (\<lambda>l. NL \<notin> set l \<and> \<not> prefix ''---'' l) ls"
  then have H1: "\<forall>l \<in> set ls. NL \<notin> set l"
    and H2: "\<forall>l \<in> set ls. \<not> prefix ''---'' l"
    by (auto simp: list_all_iff)
  have eq: "map_of (extract_front_matter ?doc) = spec_front_matter ls"
    if "list_ex (\<lambda>l. \<not> spec_blank l) ls"
  proof -
    from that have H3: "\<exists>l \<in> set ls. \<not> list_all py_isspace l"
      by (auto simp: list_ex_iff spec_blank_def)
    let ?ls' = "dropWhile (list_all py_isspace) ls"
    from fm_search[OF H1 H2 H3, of rest] obtain m where
      m: "re_search front_matter_pattern ?doc = Some m" and g: "m_group m 1 = py_join [NL] ?ls'"
      by blast
    from H3 have "?ls' \<noteq> []" by simp
    then obtain l ls0 where l: "?ls' = l # ls0" by (cases ?ls') auto
    have "set ?ls' \<subseteq> set ls" by (auto dest: set_dropWhileD)
    with H1 l have "\<forall>x \<in> set (l # ls0). NL \<notin> set x" by auto
    then have sp: "py_split NL (py_join [NL] ?ls') = ?ls'"
      unfolding l py_join_lines by (rule py_split_lines)
    have "extract_front_matter ?doc = fold front_matter_line ?ls' []"
      unfolding extract_front_matter_def m option.case g sp ..
    also have "\<dots> = fold front_matter_line ls []" by (rule fold_front_matter_dropWhile)
    finally show ?thesis
      by (simp add: fold_front_matter_spec spec_front_matter_def)
  qed
  show "spec_front_matter ls \<subseteq>\<^sub>m map_of (extract_front_matter ?doc)"
  proof (cases "list_ex (\<lambda>l. \<not> spec_blank l) ls")
    case True
    from eq[OF True] show ?thesis by simp
  next
    case False
    then have "\<forall>l \<in> set ls. spec_blank l" by (simp add: list_ex_iff)
    then have "spec_front_matter ls = Map.empty"
      unfolding spec_front_matter_def by (rule spec_front_matter_blank)
    then show ?thesis by simp
  qed
  show "map_of (extract_front_matter ?doc) = spec_front_matter ls"
    if "list_ex (\<lambda>l. \<not> spec_blank l) ls"
    using that by (rule eq)
qed

text \<open>
  A document without a block, and a block with a blank line, a comment, a line without a
  colon, a key that occurs twice and a key with spaces around it.
\<close>

lemma front_matter_block_lines_example:
  "\<not> prefix ''---'' ''# Title''
   \<and> extract_front_matter ''# Title'' = []
   \<and> list_all (\<lambda>l. NL \<notin> set l \<and> \<not> prefix ''---'' l)
        ['''', ''Title: Hello : x '', ''# c: d'', ''nocolon'', ''title: B'', '' Tags : a, b'']
   \<and> list_ex (\<lambda>l. \<not> spec_blank l)
        ['''', ''Title: Hello : x '', ''# c: d'', ''nocolon'', ''title: B'', '' Tags : a, b'']
   \<and> map_of (extract_front_matter
        (''---'' @ NL # py_join [NL]
            ['''', ''Title: Hello : x '', ''# c: d'', ''nocolon'', ''title: B'', '' Tags : a, b'']
          @ NL # ''---'' @ NL # ''body''))
      = spec_front_matter
          ['''', ''Title: Hello : x '', ''# c: d'', ''nocolon'', ''title: B'', '' Tags : a, b'']
   \<and> extract_front_matter
        (''---'' @ NL # py_join [NL]
            ['''', ''Title: Hello : x '', ''# c: d'', ''nocolon'', ''title: B'', '' Tags : a, b'']
          @ NL # ''---'' @ NL # ''body'')
      = [(''title'', ''B''), (''tags'', ''a, b'')]"
proof -
  let ?ls = "['''', ''Title: Hello : x '', ''# c: d'', ''nocolon'', ''title: B'', '' Tags : a, b'']"
  have 1: "\<not> prefix ''---'' ''# Title''" by simp
  have 2: "list_all (\<lambda>l. NL \<notin> set l \<and> \<not> prefix ''---'' l) ?ls" by simp
  have 3: "list_ex (\<lambda>l. \<not> spec_blank l) ?ls" by code_simp
  have 4: "extract_front_matter
        (''---'' @ NL # py_join [NL] ?ls @ NL # ''---'' @ NL # ''body'')
      = [(''title'', ''B''), (''tags'', ''a, b'')]"
    by code_simp
  from front_matter_block_lines [of "''# Title''" ?ls "NL # ''body''"] 1 2 3 4
  show ?thesis by blast
qed

text \<open>
  C5 at the document \<open>---\ntitle: A\n----\ntags: x\n---\n\<close>: the block between the two
  \<open>---\<close> lines has the line \<open>tags: x\<close>, which is not blank, not a comment and has a
  colon, and the front matter has the entry of \<open>title\<close> only. The closing part of the
  pattern, \<open>\n---\s*\<close>, is not tied to the end of its line as the opening part
  \<open>^---\s*\n\<close> is, so the line \<open>----\<close> ends the block. By the same defect the document
  \<open>---\ntitle: A\n----\nbody\<close>, in which no line of three dashes closes a block, has the
  front matter of \<open>title\<close> and not the empty one.
\<close>

theorem front_matter_dashes_example:
  "extract_front_matter
     (''---'' @ NL # py_join [NL] [''title: A'', ''----'', ''tags: x''] @ NL # ''---'' @ [NL])
   = [(''title'', ''A'')]
   \<and> spec_entry ''tags: x'' = Some (''tags'', ''x'')
   \<and> spec_front_matter [''title: A'', ''----'', ''tags: x''] ''tags'' = Some ''x''
   \<and> map_of [(''title'', ''A'')] ''tags'' = None
   \<and> extract_front_matter (''---'' @ NL # ''title: A'' @ NL # ''----'' @ NL # ''body'')
     = [(''title'', ''A'')]"
  by code_simp

section \<open>Properties of the link rewriter\<close>

lemma replace_scan_same_aux: "new = old \<Longrightarrow> replace_scan s old new = s"
proof (induction s old new rule: replace_scan.induct)
  case (1 old new)
  then show ?case by simp
next
  case (2 c cs old new)
  show ?case
  proof (cases "old \<noteq> [] \<and> prefix old (c # cs)")
    case True
    then have t: "take (length old) (c # cs) = old"
      by (auto simp: prefix_def)
    from True 2
    have ih: "replace_scan (drop (length old) (c # cs)) old new = drop (length old) (c # cs)"
      by simp
    from True have "replace_scan (c # cs) old new
                      = new @ replace_scan (drop (length old) (c # cs)) old new"
      by simp
    also have "\<dots> = take (length old) (c # cs) @ drop (length old) (c # cs)"
      using ih t 2(3) by simp
    also have "\<dots> = c # cs" by (rule append_take_drop_id)
    finally show ?thesis .
  next
    case False
    with 2 show ?thesis by auto
  qed
qed

lemma replace_scan_same: "replace_scan s x x = s"
  by (rule replace_scan_same_aux) simp

lemma concat_singletons: "concat (map (\<lambda>c. [c]) s) = s"
  by (induction s) simp_all

lemma py_replace_same: "py_replace s x x = s"
  by (simp add: py_replace_def replace_scan_same concat_singletons)

lemma try_at_whole:
  "try_at r p rest = Some m \<Longrightarrow> m_whole m = take (m_end m - p) rest"
  by (auto simp: try_at_def split: list.splits prod.splits)

lemma sub_from_id:
  "(\<forall>m \<in> set (finditer_from r p s). f m = m_whole m) \<Longrightarrow> sub_from r f p s = s"
proof (induction r p s rule: finditer_from.induct)
  case (1 r p)
  then show ?case by (auto split: option.splits dest: try_at_whole)
next
  case (2 r p x xs)
  show ?case
  proof (cases "try_at r p (x # xs)")
    case None
    with 2 show ?thesis by simp
  next
    case (Some m)
    from 2(4) Some have fm: "f m = m_whole m" by simp
    have w: "m_whole m = take (m_end m - p) (x # xs)" by (rule try_at_whole[OF Some])
    show ?thesis
    proof (cases "p < m_end m")
      case True
      from 2(4) Some True
      have "\<forall>m' \<in> set (finditer_from r (m_end m) (drop (m_end m - p) (x # xs))). f m' = m_whole m'"
        by simp
      from 2(2)[OF Some True this] Some True fm w show ?thesis by simp
    next
      case False
      from 2(4) Some False
      have "\<forall>m' \<in> set (finditer_from r (Suc p) xs). f m' = m_whole m'" by simp
      from 2(3)[OF Some False this] Some False fm w show ?thesis by simp
    qed
  qed
qed

lemma replace_link_unmapped:
  "map_of lm (py_strip (m_group m 1)) = None \<Longrightarrow> replace_link lm m = m_whole m"
  by (simp add: replace_link_def py_replace_same)

text \<open>
  C7: \<open>replace_markdown_links\<close> with the empty mapping returns the body; and when no
  key of the mapping is the target of a link construct of the body (no target that the
  rewriter looks up is a key), the result is the body.
\<close>

theorem rewrite_noop:
  "replace_markdown_links body [] = body
   \<and> ((\<forall>t \<in> set (rewrite_targets body). map_of lm t = None)
        \<longrightarrow> replace_markdown_links body lm = body)"
proof -
  have "replace_markdown_links body lm = body"
    if h: "\<forall>t \<in> set (rewrite_targets body). map_of lm t = None"
  proof -
    have 1: "re_sub image_pattern (replace_link lm) body = body"
      unfolding re_sub_def using h
      by (intro sub_from_id) (auto simp: rewrite_targets_def replace_link_unmapped)
    have 2: "re_sub text_link_pattern (replace_link lm) body = body"
      unfolding re_sub_def using h
      by (intro sub_from_id) (auto simp: rewrite_targets_def replace_link_unmapped)
    show ?thesis by (simp add: replace_markdown_links_def 1 2)
  qed
  then show ?thesis by (simp add: replace_markdown_links_def)
qed

text \<open>
  A body with an image and a link, and a mapping with another key.
\<close>

theorem rewrite_noop_witness:
  "rewrite_targets ''![i](b.png) [a](http://x.org/)'' = [''b.png'', ''b.png'', ''http://x.org/'']
   \<and> replace_markdown_links ''![i](b.png) [a](http://x.org/)''
         [(''c.png'', ''https://cdn.example/c.png'')]
       = ''![i](b.png) [a](http://x.org/)''"
proof -
  have t: "rewrite_targets ''![i](b.png) [a](http://x.org/)''
           = [''b.png'', ''b.png'', ''http://x.org/'']"
    by code_simp
  have h: "\<forall>t \<in> set (rewrite_targets ''![i](b.png) [a](http://x.org/)'').
             map_of [(''c.png'', ''https://cdn.example/c.png'')] t = None"
    unfolding t by simp
  from rewrite_noop [of "''![i](b.png) [a](http://x.org/)''"
                        "[(''c.png'', ''https://cdn.example/c.png'')]"] h t
  show ?thesis by blast
qed

text \<open>
  C2 at the body \<open>[a.png](a.png)\<close> with the mapping
  \<open>{"a.png": "https://cdn.example/a.png"}\<close>: the label is rewritten together with the
  target, because \<open>_replace_link\<close> replaces every occurrence of the old target inside
  the matched text.
\<close>

theorem rewrite_label_example:
  "replace_markdown_links ''[a.png](a.png)'' [(''a.png'', ''https://cdn.example/a.png'')]
   = ''[https://cdn.example/a.png](https://cdn.example/a.png)''"
  by code_simp

text \<open>
  C8: with the mapping \<open>{"img/a.png": "https://cdn.example/a.png"}\<close> the body
  \<open>![alt](img/a.png "t")\<close> is rewritten to \<open>![alt](https://cdn.example/a.png "t")\<close>.
\<close>

theorem rewrite_round_trip:
  \<open>replace_markdown_links ''![alt](img/a.png "t")''
      [(''img/a.png'', ''https://cdn.example/a.png'')]
   = ''![alt](https://cdn.example/a.png "t")''\<close>
  by code_simp

end
